(* ===== verification/Epi_Prelude.thy ===== *)
theory Epi_Prelude
  imports Main "HOL-Library.Word" "HOL-Library.Sublist" "HOL-Library.Code_Target_Nat"
begin

text \<open>
  Shared vocabulary of the development: the result type of fallible code, the loop
  combinator that the supervisor loops are written with, the option and saturating-word
  idioms of the source, and the collections of rewrite rules the component proofs use.
\<close>

section \<open>Results, options and loops\<close>

named_theorems io_defs \<open>definitions of the system-call wrappers\<close>
named_theorems view_simps \<open>how the views of a history react to one more event\<close>
named_theorems stream_frame \<open>fields an operation leaves alone\<close>

abbreviation Ok :: "'a \<Rightarrow> 'e + 'a" where "Ok \<equiv> Inr"
abbreviation Err :: "'e \<Rightarrow> 'e + 'a" where "Err \<equiv> Inl"

definition is_ok :: "'e + 'a \<Rightarrow> bool" where
  "is_ok r = (case r of Ok _ \<Rightarrow> True | Err _ \<Rightarrow> False)"

lemma is_ok_simps [simp]: "is_ok (Ok x)" "\<not> is_ok (Err e)"
  by (simp_all add: is_ok_def)

text \<open>\<open>Option::get_or_insert\<close>: the first value stays.\<close>

definition get_or_insert :: "'a option \<Rightarrow> 'a \<Rightarrow> 'a option" where
  "get_or_insert slot v = (case slot of None \<Rightarrow> Some v | Some x \<Rightarrow> Some x)"

lemma get_or_insert_simps [simp]:
  "get_or_insert None v = Some v"
  "get_or_insert (Some x) v = Some x"
  "get_or_insert slot v \<noteq> None"
  by (simp_all add: get_or_insert_def split: option.split)

text \<open>
  A Rust \<open>loop\<close> is a body that either leaves with a value or goes round again. The
  combinator is partial: \<open>None\<close> is a loop that never leaves.
\<close>

datatype ('s, 'r) flow = Break 'r | Continue 's

partial_function (option) run_loop :: "('s \<Rightarrow> ('s, 'r) flow) \<Rightarrow> 's \<Rightarrow> 'r option" where
  "run_loop body s = (case body s of Break r \<Rightarrow> Some r | Continue s' \<Rightarrow> run_loop body s')"

declare run_loop.simps [code]

lemma run_loop_Break: "body s = Break r \<Longrightarrow> run_loop body s = Some r"
  by (simp add: run_loop.simps)

lemma run_loop_Continue: "body s = Continue s' \<Longrightarrow> run_loop body s = run_loop body s'"
  by (simp add: run_loop.simps)

lemma run_loop_invariant:
  assumes ret: "run_loop body s = Some r"
    and init: "I s"
    and keep: "\<And>s s'. I s \<Longrightarrow> body s = Continue s' \<Longrightarrow> I s'"
    and leave: "\<And>s r. I s \<Longrightarrow> body s = Break r \<Longrightarrow> Q r"
  shows "Q r"
proof -
  have "b = body \<longrightarrow> I s \<longrightarrow> Q r" if "run_loop b s = Some r" for b s r
  proof (rule run_loop.raw_induct [where P = "\<lambda>b s r. b = body \<longrightarrow> I s \<longrightarrow> Q r", OF _ that])
    fix rec b s r
    assume IH: "\<And>b s r. rec b s = Some r \<Longrightarrow> b = body \<longrightarrow> I s \<longrightarrow> Q r"
      and eq: "(case b s of Break r \<Rightarrow> Some r | Continue s' \<Rightarrow> rec b s') = Some r"
    show "b = body \<longrightarrow> I s \<longrightarrow> Q r"
      using eq IH keep leave by (auto split: flow.splits)
  qed
  with ret init show ?thesis by blast
qed

lemma run_loop_terminates:
  fixes m :: "'s \<Rightarrow> nat"
  assumes init: "I s"
    and keep: "\<And>s s'. I s \<Longrightarrow> body s = Continue s' \<Longrightarrow> I s'"
    and less: "\<And>s s'. I s \<Longrightarrow> body s = Continue s' \<Longrightarrow> m s' < m s"
  shows "\<exists>r. run_loop body s = Some r"
  using init
proof (induction s rule: measure_induct_rule [of m])
  case (less s)
  show ?case
  proof (cases "body s")
    case (Break r)
    then show ?thesis by (simp add: run_loop_Break)
  next
    case (Continue s')
    with less.prems less.IH keep assms(3) have "\<exists>r. run_loop body s' = Some r" by blast
    with Continue show ?thesis by (simp add: run_loop_Continue)
  qed
qed

text \<open>
  The contract of a loop body: what every turn keeps, and what leaving establishes. The
  supervisor loops are interpretations of it.
\<close>

locale loop_contract =
  fixes body :: "'s \<Rightarrow> ('s, 'r) flow"
    and inv :: "'s \<Rightarrow> bool"
    and post :: "'r \<Rightarrow> bool"
  assumes keeps: "inv s \<Longrightarrow> body s = Continue s' \<Longrightarrow> inv s'"
    and leaves: "inv s \<Longrightarrow> body s = Break r \<Longrightarrow> post r"
begin

lemma result: "run_loop body s = Some r \<Longrightarrow> inv s \<Longrightarrow> post r"
  by (erule run_loop_invariant [where I = inv]) (auto intro: keeps leaves)

end

locale terminating_loop = loop_contract body inv post
  for body :: "'s \<Rightarrow> ('s, 'r) flow" and inv :: "'s \<Rightarrow> bool" and post :: "'r \<Rightarrow> bool" +
  fixes variant :: "'s \<Rightarrow> nat"
  assumes descends: "inv s \<Longrightarrow> body s = Continue s' \<Longrightarrow> variant s' < variant s"
begin

lemma returns: "inv s \<Longrightarrow> \<exists>r. run_loop body s = Some r \<and> post r"
  using run_loop_terminates [of inv s body variant] keeps descends result by metis

end

section \<open>Machine integers\<close>

type_synonym byte = "8 word"
type_synonym u32 = "32 word"
type_synonym u64 = "64 word"
type_synonym usize = "64 word"

definition saturating_add :: "'a::len word \<Rightarrow> 'a word \<Rightarrow> 'a word" where
  "saturating_add a b = (if unat a + unat b < 2 ^ LENGTH('a) then a + b else - 1)"

definition saturating_sub :: "'a::len word \<Rightarrow> 'a word \<Rightarrow> 'a word" where
  "saturating_sub a b = (if a < b then 0 else a - b)"

text \<open>\<open>slice::len\<close>: a length as a machine word.\<close>

definition len :: "'a list \<Rightarrow> usize" where
  "len xs = word_of_nat (length xs)"

lemma unat_saturating_add:
  "unat (saturating_add a b) = min (2 ^ LENGTH('a) - 1) (unat (a::'a::len word) + unat b)"
proof (cases "unat a + unat b < 2 ^ LENGTH('a)")
  case True
  then show ?thesis by (simp add: saturating_add_def unat_word_ariths)
next
  case False
  then show ?thesis by (simp add: saturating_add_def unsigned_minus_1_eq_mask mask_eq_exp_minus_1)
qed

lemma unat_saturating_sub: "unat (saturating_sub a b) = unat a - unat b"
  by (auto simp: saturating_sub_def word_less_nat_alt unat_sub_if')

lemma unat_u64: "unat w < 2 ^ 64" for w :: u64
  by (rule order_less_le_trans [OF unsigned_less]) simp

lemma saturating_add_0 [simp]: "saturating_add a 0 = a"
  by (simp add: saturating_add_def)

lemma unat_len: "length xs < 2 ^ 64 \<Longrightarrow> unat (len xs) = length xs"
  by (simp add: len_def unat_of_nat take_bit_nat_eq_self)

lemma len_Nil [simp]: "len [] = 0"
  by (simp add: len_def)

text \<open>Saturating a running total twice is saturating the sum once.\<close>

lemma min_add_absorb: "min m (min m a + b) = min m (a + b)" for a b m :: nat
  by arith

end
