(* ===== verification/Rust_Std.thy ===== *)
theory Rust_Std
  imports Epi_Prelude
begin

text \<open>
  The parts of the Rust standard library that the crate computes with: durations and
  instants, I/O errors, text trimming, exit statuses, and the component view of Unix paths.
  Durations and instants count nanoseconds; the representable range of an instant is a
  parameter of the platform.
\<close>

section \<open>Durations and instants\<close>

type_synonym duration = nat
type_synonym instant = nat

definition nanos_per_sec :: nat where "nanos_per_sec = 1000000000"

definition from_secs :: "nat \<Rightarrow> duration" where "from_secs n = n * nanos_per_sec"
definition from_millis :: "nat \<Rightarrow> duration" where "from_millis n = n * 1000000"

text \<open>\<open>Duration::MAX\<close>: all 64 bits of seconds and the last nanosecond.\<close>

definition duration_max :: duration where
  "duration_max = (2 ^ 64 - 1) * nanos_per_sec + (nanos_per_sec - 1)"

definition subsec_nanos :: "duration \<Rightarrow> nat" where
  "subsec_nanos d = d mod nanos_per_sec"

definition saturating_duration_since :: "instant \<Rightarrow> instant \<Rightarrow> duration" where
  "saturating_duration_since later earlier = later - earlier"

text \<open>\<open>Instant::checked_add\<close> on a platform whose instants stay below \<open>limit\<close>.\<close>

definition checked_add :: "nat \<Rightarrow> instant \<Rightarrow> duration \<Rightarrow> instant option" where
  "checked_add limit t d = (if t + d < limit then Some (t + d) else None)"

lemma checked_add_Some: "checked_add limit t d = Some v \<longleftrightarrow> v = t + d \<and> t + d < limit"
  by (auto simp: checked_add_def)

lemma checked_add_None: "checked_add limit t d = None \<longleftrightarrow> limit \<le> t + d"
  by (auto simp: checked_add_def)

section \<open>I/O errors\<close>

text \<open>
  An operating-system error is its errno; the rows of the standard library's kind table
  that the crate inspects or names are written out (\<open>EPIPE\<close>, 32, is a broken pipe), every other
  one keeps its errno. The text of an errno stays symbolic (\<open>OsText\<close>).
\<close>

datatype errno = EINTR | EAGAIN | ESRCH | Errno nat

datatype error_kind = Interrupted | WouldBlock | BrokenPipe | OtherKind | KindOf nat

datatype error_text = OsText errno | Text string

datatype io_error = OsError errno | CustomError error_kind string

fun io_kind :: "io_error \<Rightarrow> error_kind" where
  "io_kind (OsError EINTR) = Interrupted"
| "io_kind (OsError EAGAIN) = WouldBlock"
| "io_kind (OsError ESRCH) = KindOf 3"
| "io_kind (OsError (Errno n)) = (if n = 32 then BrokenPipe else KindOf n)"
| "io_kind (CustomError k _) = k"

fun io_text :: "io_error \<Rightarrow> error_text" where
  "io_text (OsError e) = OsText e"
| "io_text (CustomError _ m) = Text m"

fun raw_os_error :: "io_error \<Rightarrow> errno option" where
  "raw_os_error (OsError e) = Some e"
| "raw_os_error (CustomError _ _) = None"

definition io_other :: "string \<Rightarrow> io_error" where
  "io_other m = CustomError OtherKind m"

section \<open>Exit statuses\<close>

text \<open>A Unix wait status; success is the all-zero status.\<close>

datatype exit_status = ExitStatus (raw_status: int)

definition success :: "exit_status \<Rightarrow> bool" where
  "success st \<longleftrightarrow> raw_status st = 0"

lemma success_simps [simp]: "success (ExitStatus n) \<longleftrightarrow> n = 0"
  by (simp add: success_def)

section \<open>Text\<close>

text \<open>
  A \<open>String\<close> whose content is inspected is the list of its Unicode scalar values;
  \<open>char::is_whitespace\<close> is the Unicode \<open>White_Space\<close> property.
\<close>

type_synonym utext = "nat list"

definition is_whitespace :: "nat \<Rightarrow> bool" where
  "is_whitespace c \<longleftrightarrow>
     9 \<le> c \<and> c \<le> 13 \<or> c = 32 \<or> c = 133 \<or> c = 160 \<or> c = 5760 \<or>
     8192 \<le> c \<and> c \<le> 8202 \<or> c = 8232 \<or> c = 8233 \<or> c = 8239 \<or> c = 8287 \<or> c = 12288"

definition trim :: "utext \<Rightarrow> utext" where
  "trim s = rev (dropWhile is_whitespace (rev (dropWhile is_whitespace s)))"

lemma trim_Nil_iff: "trim s = [] \<longleftrightarrow> (\<forall>c \<in> set s. is_whitespace c)"
proof -
  have blank: "(\<forall>c \<in> set d. is_whitespace c) \<longleftrightarrow> d = []"
    if "d \<noteq> [] \<longrightarrow> \<not> is_whitespace (hd d)" for d
    using that by (cases d) auto
  have "trim s = [] \<longleftrightarrow> (\<forall>c \<in> set (dropWhile is_whitespace s). is_whitespace c)"
    by (simp add: trim_def)
  also have "\<dots> \<longleftrightarrow> dropWhile is_whitespace s = []"
    by (rule blank) (use hd_dropWhile in blast)
  finally show ?thesis by simp
qed

section \<open>Unix paths\<close>

text \<open>
  \<open>OsString\<close> and \<open>PathBuf\<close> are byte strings. \<open>Path::components\<close> splits at the
  separator, drops empty parts and every \<open>.\<close> except a leading one.
\<close>

type_synonym os_string = string

datatype path_component = RootDir | CurDir | ParentDir | Normal os_string

fun split_path :: "os_string \<Rightarrow> os_string list" where
  "split_path [] = [[]]"
| "split_path (c # cs) =
     (if c = CHR ''/'' then [] # split_path cs
      else (case split_path cs of [] \<Rightarrow> [[c]] | p # ps \<Rightarrow> (c # p) # ps))"

definition is_absolute :: "os_string \<Rightarrow> bool" where
  "is_absolute p = (case p of [] \<Rightarrow> False | c # _ \<Rightarrow> c = CHR ''/'')"

definition body_component :: "os_string \<Rightarrow> path_component list" where
  "body_component part =
     (if part = '''' \<or> part = ''.'' then []
      else if part = ''..'' then [ParentDir] else [Normal part])"

definition leading_component :: "os_string \<Rightarrow> path_component list" where
  "leading_component p =
     (if is_absolute p then [RootDir]
      else if hd (split_path p) = ''.'' then [CurDir] else [])"

definition components :: "os_string \<Rightarrow> path_component list" where
  "components p = leading_component p @ concat (map body_component (split_path p))"

lemma split_path_not_Nil [simp]: "split_path p \<noteq> []"
  by (induction p) (auto split: list.split)

lemma split_path_no_separator: "CHR ''/'' \<notin> set p \<Longrightarrow> split_path p = [p]"
  by (induction p) auto

text \<open>More than one component, or a root, needs a separator in the bytes.\<close>

lemma components_separator:
  assumes "is_absolute p \<or> 1 < length (components p)"
  shows "CHR ''/'' \<in> set p"
proof (rule ccontr)
  assume no: "CHR ''/'' \<notin> set p"
  then have "\<not> is_absolute p" by (auto simp: is_absolute_def split: list.splits)
  moreover have "length (components p) \<le> 1"
    using no calculation
    by (simp add: components_def leading_component_def body_component_def split_path_no_separator)
  ultimately show False using assms by simp
qed

end
