(* ===== verification/Evidence.thy ===== *)
theory Evidence
  imports Rust_Std
begin

text \<open>
  Captured output and lifecycle evidence: the data of \<open>output.rs\<close> and the evidence records
  of \<open>error.rs\<close>, with the constructors of captured streams.
\<close>

section \<open>Streams and failures\<close>

datatype stream_name = Stdout | Stderr

text \<open>Reports and lists of streams are always in the order stdout, stderr.\<close>

instantiation stream_name :: linorder
begin

definition less_eq_stream_name :: "stream_name \<Rightarrow> stream_name \<Rightarrow> bool" where
  "less_eq_stream_name a b \<longleftrightarrow> a = Stdout \<or> b = Stderr"

definition less_stream_name :: "stream_name \<Rightarrow> stream_name \<Rightarrow> bool" where
  "less_stream_name a b \<longleftrightarrow> a = Stdout \<and> b = Stderr"

instance
proof
  fix a b c :: stream_name
  show "(a < b) = (a \<le> b \<and> \<not> b \<le> a)" "a \<le> a" "a \<le> b \<or> b \<le> a"
    by (cases a; cases b; simp add: less_eq_stream_name_def less_stream_name_def)+
  show "a \<le> b \<Longrightarrow> b \<le> c \<Longrightarrow> a \<le> c" "a \<le> b \<Longrightarrow> b \<le> a \<Longrightarrow> a = b"
    by (cases a; cases b; cases c; simp add: less_eq_stream_name_def)+
qed

end

record failure_evidence =
  fe_operation :: string
  fe_kind :: error_kind
  fe_message :: error_text

definition failure_from_io :: "string \<Rightarrow> io_error \<Rightarrow> failure_evidence" where
  "failure_from_io operation e =
     \<lparr>fe_operation = operation, fe_kind = io_kind e, fe_message = io_text e\<rparr>"

datatype capture_failure = FailureRead error_kind error_text | FailureAllocation

record cleanup_incomplete_evidence =
  unfinished_streams :: "stream_name list"
  leader_unsettled :: bool
  cleanup_budget :: duration

section \<open>Outcomes\<close>

datatype group_signal_outcome = Sent | AlreadyGone | SignalFailed failure_evidence | SignalUnknown

datatype leader_reap_disposition = Reaped | BackgroundReaper | Unreaped | DispositionUnknown

record leader_reap_outcome =
  disposition :: leader_reap_disposition
  failures :: "failure_evidence list"

datatype capture_completeness =
  Complete | Truncated u64 | Incomplete u64 | Redirected | CompletenessUnknown

record captured_stream =
  cs_bytes :: "byte list"
  completeness :: capture_completeness

definition settled :: "byte list \<Rightarrow> u64 \<Rightarrow> captured_stream" where
  "settled bytes discarded =
     \<lparr>cs_bytes = bytes,
      completeness = (if discarded = 0 then Complete else Truncated discarded)\<rparr>"

definition incomplete :: "byte list \<Rightarrow> u64 \<Rightarrow> captured_stream" where
  "incomplete bytes discarded = \<lparr>cs_bytes = bytes, completeness = Incomplete discarded\<rparr>"

definition redirected_stream :: captured_stream where
  "redirected_stream = \<lparr>cs_bytes = [], completeness = Redirected\<rparr>"

definition unknown_stream :: captured_stream where
  "unknown_stream = \<lparr>cs_bytes = [], completeness = CompletenessUnknown\<rparr>"

definition captured_len :: "captured_stream \<Rightarrow> usize" where
  "captured_len c = len (cs_bytes c)"

definition captured_is_empty :: "captured_stream \<Rightarrow> bool" where
  "captured_is_empty c \<longleftrightarrow> cs_bytes c = []"

record capture_report =
  report_stream :: stream_name
  captured :: captured_stream
  report_failure :: "capture_failure option"

datatype cleanup_outcome =
  CleanupComplete | CleanupIncomplete cleanup_incomplete_evidence | CleanupUnknown

record lifecycle_evidence =
  leader_status :: "exit_status option"
  elapsed :: "duration option"
  signal :: group_signal_outcome
  reap :: leader_reap_outcome
  le_stdout :: capture_report
  le_stderr :: capture_report
  cleanup :: cleanup_outcome

definition first_capture_failure :: "lifecycle_evidence \<Rightarrow> stream_name option" where
  "first_capture_failure ev =
     (if report_failure (le_stdout ev) \<noteq> None then Some Stdout
      else if report_failure (le_stderr ev) \<noteq> None then Some Stderr
      else None)"

lemma first_capture_failure_None:
  "first_capture_failure ev = None \<longleftrightarrow>
     report_failure (le_stdout ev) = None \<and> report_failure (le_stderr ev) = None"
  by (simp add: first_capture_failure_def)

section \<open>Terminal outputs\<close>

record run_output =
  out_evidence :: lifecycle_evidence
  out_status :: exit_status

record managed_output =
  mo_evidence :: lifecycle_evidence
  mo_status :: exit_status

definition output_new :: "exit_status \<Rightarrow> lifecycle_evidence \<Rightarrow> run_output" where
  "output_new st ev = \<lparr>out_evidence = ev, out_status = st\<rparr>"

definition output_status :: "run_output \<Rightarrow> exit_status" where
  "output_status out = out_status out"

definition output_success :: "run_output \<Rightarrow> bool" where
  "output_success out = success (out_status out)"

definition managed_output_new :: "exit_status \<Rightarrow> lifecycle_evidence \<Rightarrow> managed_output" where
  "managed_output_new st ev = \<lparr>mo_evidence = ev, mo_status = st\<rparr>"

definition managed_output_status :: "managed_output \<Rightarrow> exit_status" where
  "managed_output_status out = mo_status out"

definition managed_output_success :: "managed_output \<Rightarrow> bool" where
  "managed_output_success out = success (mo_status out)"

lemma output_new_simps [simp]:
  "out_evidence (output_new st ev) = ev" "out_status (output_new st ev) = st"
  "mo_evidence (managed_output_new st ev) = ev" "mo_status (managed_output_new st ev) = st"
  by (simp_all add: output_new_def managed_output_new_def)

section \<open>Reports of streams the supervisor did not capture\<close>

definition redirected_report :: "stream_name \<Rightarrow> capture_report" where
  "redirected_report s =
     \<lparr>report_stream = s, captured = redirected_stream, report_failure = None\<rparr>"

definition unknown_report :: "stream_name \<Rightarrow> capture_report" where
  "unknown_report s =
     \<lparr>report_stream = s, captured = unknown_stream, report_failure = None\<rparr>"

definition unknown_evidence :: lifecycle_evidence where
  "unknown_evidence =
     \<lparr>leader_status = None, elapsed = None, signal = SignalUnknown,
      reap = \<lparr>disposition = DispositionUnknown, failures = []\<rparr>,
      le_stdout = unknown_report Stdout, le_stderr = unknown_report Stderr,
      cleanup = CleanupUnknown\<rparr>"

end
