(* ===== verification/Errors.thy ===== *)
theory Errors
  imports Evidence
begin

text \<open>
  The typed errors of \<open>error.rs\<close> and the policy violations of \<open>policy.rs\<close>. The implicit
  source location of each variant is a diagnostic and has no counterpart. A program name in
  an error is a label: the display form of a path, a fixed text, or the formatted name of a
  managed child.
\<close>

datatype capability = OwnedProcessGroup

datatype policy_violation =
  EmptyReason
| DeadlineOverflow duration
| BareProgramWithoutPath os_string
| CapturePolicyWithStreaming stream_name

datatype label = PathDisplay os_string | LabelText string | ManagedChildLabel u32

datatype epi_error =
  InvalidPolicy policy_violation
| UnsupportedCapability capability
| SpawnFailed label io_error
| SupervisorStartFailed label io_error
| ReaperStartFailed label io_error
| NonZeroExit label lifecycle_evidence
| Timeout label duration lifecycle_evidence
| CaptureLimitExceeded label stream_name usize lifecycle_evidence
| Cancelled label lifecycle_evidence
| CaptureFailed label lifecycle_evidence
| SupervisionFailed label io_error lifecycle_evidence
| LifecycleFailed label lifecycle_evidence
| CleanupIncompleteError label lifecycle_evidence

text \<open>The evidence an error carries; the errors raised before a child exists carry none.\<close>

fun error_evidence :: "epi_error \<Rightarrow> lifecycle_evidence option" where
  "error_evidence (NonZeroExit _ ev) = Some ev"
| "error_evidence (Timeout _ _ ev) = Some ev"
| "error_evidence (CaptureLimitExceeded _ _ _ ev) = Some ev"
| "error_evidence (Cancelled _ ev) = Some ev"
| "error_evidence (CaptureFailed _ ev) = Some ev"
| "error_evidence (SupervisionFailed _ _ ev) = Some ev"
| "error_evidence (LifecycleFailed _ ev) = Some ev"
| "error_evidence (CleanupIncompleteError _ ev) = Some ev"
| "error_evidence _ = None"

definition managed_evidence :: "epi_error + managed_output \<Rightarrow> lifecycle_evidence option" where
  "managed_evidence r = (case r of Ok out \<Rightarrow> Some (mo_evidence out) | Err e \<Rightarrow> error_evidence e)"

definition run_evidence :: "epi_error + run_output \<Rightarrow> lifecycle_evidence option" where
  "run_evidence r = (case r of Ok out \<Rightarrow> Some (out_evidence out) | Err e \<Rightarrow> error_evidence e)"

lemma evidence_views [simp]:
  "managed_evidence (Ok out) = Some (mo_evidence out)"
  "managed_evidence (Err e) = error_evidence e"
  "run_evidence (Ok o') = Some (out_evidence o')"
  "run_evidence (Err e) = error_evidence e"
  by (simp_all add: managed_evidence_def run_evidence_def)

end
