(* ===== verification/Ordered_Map.thy ===== *)
theory Ordered_Map
  imports Epi_Prelude "HOL-Library.List_Lexorder" "HOL-Library.Char_ord"
begin

text \<open>
  \<open>BTreeMap\<close> and \<open>BTreeSet\<close> as the crate and the standard process builder use them:
  an interface (locale) with insert, remove, lookup and in-order entries, and the
  association lists in ascending key order that implement it.
\<close>

section \<open>The interface\<close>

locale ordered_map =
  fixes empty :: 'm
    and insert :: "'k::linorder \<Rightarrow> 'v \<Rightarrow> 'm \<Rightarrow> 'm"
    and remove :: "'k \<Rightarrow> 'm \<Rightarrow> 'm"
    and lookup :: "'m \<Rightarrow> 'k \<rightharpoonup> 'v"
    and entries :: "'m \<Rightarrow> ('k \<times> 'v) list"
    and wf :: "'m \<Rightarrow> bool"
  assumes wf_empty: "wf empty"
    and wf_insert: "wf m \<Longrightarrow> wf (insert k v m)"
    and wf_remove: "wf m \<Longrightarrow> wf (remove k m)"
    and lookup_empty: "lookup empty = Map.empty"
    and lookup_insert: "wf m \<Longrightarrow> lookup (insert k v m) = (lookup m)(k \<mapsto> v)"
    and lookup_remove: "wf m \<Longrightarrow> lookup (remove k m) = (lookup m)(k := None)"
    and entries_sorted: "wf m \<Longrightarrow> sorted_wrt (<) (map fst (entries m))"
    and entries_lookup: "wf m \<Longrightarrow> map_of (entries m) = lookup m"
begin

lemma wf_fold_insert: "wf m \<Longrightarrow> wf (fold (\<lambda>(k, v). insert k v) kvs m)"
  by (induction kvs arbitrary: m) (auto simp: wf_insert)

text \<open>Inserting a sequence of bindings: the last binding of a key wins.\<close>

lemma lookup_fold_insert:
  "wf m \<Longrightarrow> lookup (fold (\<lambda>(k, v). insert k v) kvs m) = lookup m ++ map_of (rev kvs)"
proof (induction kvs arbitrary: m)
  case Nil
  then show ?case by simp
next
  case (Cons kv kvs)
  then show ?case
    by (cases kv) (simp add: wf_insert lookup_insert map_add_def fun_eq_iff split: option.split)
qed

lemma distinct_entries: "wf m \<Longrightarrow> distinct (map fst (entries m))"
  using entries_sorted strict_sorted_iff by blast

end

section \<open>Association lists in key order\<close>

fun bt_insert :: "'k::linorder \<Rightarrow> 'v \<Rightarrow> ('k \<times> 'v) list \<Rightarrow> ('k \<times> 'v) list" where
  "bt_insert k v [] = [(k, v)]"
| "bt_insert k v ((k', v') # m) =
     (if k < k' then (k, v) # (k', v') # m
      else if k = k' then (k, v) # m
      else (k', v') # bt_insert k v m)"

fun bt_remove :: "'k::linorder \<Rightarrow> ('k \<times> 'v) list \<Rightarrow> ('k \<times> 'v) list" where
  "bt_remove k [] = []"
| "bt_remove k ((k', v') # m) = (if k = k' then m else (k', v') # bt_remove k m)"

definition bt_wf :: "('k::linorder \<times> 'v) list \<Rightarrow> bool" where
  "bt_wf m \<longleftrightarrow> sorted_wrt (<) (map fst m)"

lemma bt_insert_keys: "set (map fst (bt_insert k v m)) = {k} \<union> set (map fst m)"
  by (induction k v m rule: bt_insert.induct) auto

lemma bt_remove_keys: "set (map fst (bt_remove k m)) \<subseteq> set (map fst m)"
  by (induction k m rule: bt_remove.induct) auto

lemma bt_wf_insert: "bt_wf m \<Longrightarrow> bt_wf (bt_insert k v m)"
proof (induction k v m rule: bt_insert.induct)
  case (2 k v k' v' m)
  then show ?case
    using bt_insert_keys [of k v m] by (fastforce simp: bt_wf_def)
qed (simp add: bt_wf_def)

lemma bt_wf_remove: "bt_wf m \<Longrightarrow> bt_wf (bt_remove k m)"
proof (induction k m rule: bt_remove.induct)
  case (2 k k' v' m)
  then show ?case
    using bt_remove_keys [of k m] by (fastforce simp: bt_wf_def)
qed (simp add: bt_wf_def)

lemma bt_insert_lookup: "map_of (bt_insert k v m) = (map_of m)(k \<mapsto> v)"
  by (induction k v m rule: bt_insert.induct) (auto simp: fun_eq_iff)

lemma bt_remove_lookup: "bt_wf m \<Longrightarrow> map_of (bt_remove k m) = (map_of m)(k := None)"
proof (induction k m rule: bt_remove.induct)
  case (2 k k' v' m)
  then have "k = k' \<Longrightarrow> map_of m k = None"
    by (auto simp: bt_wf_def map_of_eq_None_iff)
  with 2 show ?case by (auto simp: bt_wf_def fun_eq_iff)
qed simp

interpretation btree: ordered_map "[]" bt_insert bt_remove map_of "\<lambda>m. m" bt_wf
  by unfold_locales
    (auto simp: bt_wf_insert bt_wf_remove bt_insert_lookup bt_remove_lookup, auto simp: bt_wf_def)

section \<open>Sets of strings\<close>

text \<open>A \<open>BTreeSet\<close> is the map to \<open>()\<close>; collecting a sequence inserts its items in turn.\<close>

type_synonym 'k btree_set = "('k \<times> unit) list"

definition bset_collect :: "'k::linorder list \<Rightarrow> 'k btree_set" where
  "bset_collect ks = fold (\<lambda>(k, u). bt_insert k u) (map (\<lambda>k. (k, ())) ks) []"

definition bset_contains :: "'k::linorder btree_set \<Rightarrow> 'k \<Rightarrow> bool" where
  "bset_contains s k \<longleftrightarrow> k \<in> set (map fst s)"

lemma bset_contains_collect: "bset_contains (bset_collect ks) k \<longleftrightarrow> k \<in> set ks"
proof -
  have "bset_contains m k \<longleftrightarrow> map_of m k \<noteq> None" for m :: "'a btree_set"
    by (simp add: bset_contains_def map_of_eq_None_iff)
  moreover have "bt_wf ([] :: ('a \<times> unit) list)" by (rule btree.wf_empty)
  ultimately show ?thesis
    unfolding bset_collect_def
    by (simp only: btree.lookup_fold_insert) (auto simp: map_add_def map_of_eq_None_iff image_image split: option.splits)
qed

lemma bt_wf_collect: "bt_wf (bset_collect ks)"
  unfolding bset_collect_def by (rule btree.wf_fold_insert) (rule btree.wf_empty)

end
