(* ===== verification/Policy.thy ===== *)
theory Policy
  imports Errors Ordered_Map
begin

text \<open>
  Invocation policies (\<open>policy.rs\<close>): reasons, execution lifetime, environment and capture
  policies, and the validation of deadlines.
\<close>

section \<open>Constants\<close>

definition default_capture_limit :: usize where
  "default_capture_limit = 10 * 1024 * 1024"

definition cleanup_allowance :: duration where
  "cleanup_allowance = from_millis 2100"

section \<open>Reasons\<close>

text \<open>A reason is built only by \<open>reason_new\<close>, which refuses blank text.\<close>

datatype non_empty_reason = NonEmptyReason (as_str: utext)

definition reason_new :: "utext \<Rightarrow> epi_error + non_empty_reason" where
  "reason_new r =
     (if trim r = [] then Err (InvalidPolicy EmptyReason) else Ok (NonEmptyReason r))"

definition reason_as_str :: "non_empty_reason \<Rightarrow> utext" where
  "reason_as_str r = as_str r"

lemma reason_new_Ok: "reason_new r = Ok x \<longleftrightarrow> x = NonEmptyReason r \<and> (\<exists>c \<in> set r. \<not> is_whitespace c)"
  by (auto simp: reason_new_def trim_Nil_iff)

lemma reason_new_Err: "reason_new r = Err e \<longleftrightarrow> e = InvalidPolicy EmptyReason \<and> (\<forall>c \<in> set r. is_whitespace c)"
  by (auto simp: reason_new_def trim_Nil_iff)

section \<open>Lifetime\<close>

datatype execution_policy = Deadline duration | Unbounded non_empty_reason

datatype draft = Draft

record ready =
  execution :: execution_policy

definition ready_new :: "execution_policy \<Rightarrow> ready" where
  "ready_new p = \<lparr>execution = p\<rparr>"

definition ready_execution :: "ready \<Rightarrow> execution_policy" where
  "ready_execution r = execution r"

definition into_execution :: "ready \<Rightarrow> execution_policy" where
  "into_execution r = execution r"

definition execution_deadline ::
  "nat \<Rightarrow> execution_policy \<Rightarrow> instant \<Rightarrow> epi_error + instant option" where
  "execution_deadline limit p started =
     (case p of
        Deadline d \<Rightarrow>
          (case checked_add limit started d of
             Some deadline \<Rightarrow> Ok (Some deadline)
           | None \<Rightarrow> Err (InvalidPolicy (DeadlineOverflow d)))
      | Unbounded _ \<Rightarrow> Ok None)"

definition execution_duration :: "execution_policy \<Rightarrow> duration option" where
  "execution_duration p = (case p of Deadline d \<Rightarrow> Some d | Unbounded _ \<Rightarrow> None)"

definition validate_deadline :: "nat \<Rightarrow> instant \<Rightarrow> duration \<Rightarrow> epi_error + unit" where
  "validate_deadline limit now d =
     (if d = duration_max \<or> checked_add limit now d = None
      then Err (InvalidPolicy (DeadlineOverflow d))
      else Ok ())"

lemma execution_deadline_Ok:
  "execution_deadline limit p started = Ok dl \<longleftrightarrow>
     (case p of Deadline d \<Rightarrow> dl = Some (started + d) \<and> started + d < limit
              | Unbounded _ \<Rightarrow> dl = None)"
  by (auto simp: execution_deadline_def checked_add_def split: execution_policy.split)

lemma deadline_configured:
  "execution_deadline limit p started = Ok (Some dl) \<Longrightarrow> \<exists>d. execution_duration p = Some d \<and> dl = started + d"
  by (auto simp: execution_deadline_Ok execution_duration_def split: execution_policy.splits)

section \<open>Environment policy\<close>

datatype environment_policy =
  Clean
| Allowlist "os_string btree_set"
| InheritAll non_empty_reason

definition env_policy_default :: environment_policy where
  "env_policy_default = Clean"

definition clean :: environment_policy where
  "clean = Clean"

definition allowlist :: "os_string list \<Rightarrow> environment_policy" where
  "allowlist keys = Allowlist (bset_collect keys)"

definition inherit_all :: "utext \<Rightarrow> epi_error + environment_policy" where
  "inherit_all reason = map_sum id InheritAll (reason_new reason)"

definition allows_key :: "environment_policy \<Rightarrow> os_string \<Rightarrow> bool" where
  "allows_key p key =
     (case p of
        Clean \<Rightarrow> False
      | Allowlist keys \<Rightarrow> bset_contains keys key
      | InheritAll _ \<Rightarrow> True)"

section \<open>Capture policy\<close>

datatype overflow_behavior = FailClosed | TruncateAndDrain

datatype capture_policy = Bounded usize overflow_behavior | UnboundedCapture non_empty_reason

definition bounded :: "usize \<Rightarrow> capture_policy" where
  "bounded limit = Bounded limit FailClosed"

definition truncate :: "usize \<Rightarrow> capture_policy" where
  "truncate limit = Bounded limit TruncateAndDrain"

definition capture_unbounded :: "utext \<Rightarrow> epi_error + capture_policy" where
  "capture_unbounded reason = map_sum id UnboundedCapture (reason_new reason)"

definition is_default :: "capture_policy \<Rightarrow> bool" where
  "is_default p =
     (case p of
        Bounded limit overflow \<Rightarrow> limit = default_capture_limit \<and> overflow = FailClosed
      | UnboundedCapture _ \<Rightarrow> False)"

definition capture_policy_default :: capture_policy where
  "capture_policy_default = bounded default_capture_limit"

lemma is_default_iff: "is_default p \<longleftrightarrow> p = capture_policy_default"
  by (auto simp: is_default_def capture_policy_default_def bounded_def split: capture_policy.split)

end
