(* ===== verification/Std_Process.thy ===== *)
theory Std_Process
  imports Rust_Std Ordered_Map
begin

text \<open>
  \<open>std::process::Command\<close> as the crate configures it: program, arguments, the environment
  with its clear flag and ordered overrides, working directory, standard streams and process
  group; and the environment block a spawned child receives. The parent's environment is the
  association list the operating system hands out (the first binding of a key is the one
  \<open>var_os\<close> finds, while copying all of it lets the last one win).
\<close>

section \<open>Environment of a process builder\<close>

type_synonym parent_env = "(os_string \<times> os_string) list"

definition var_os :: "parent_env \<Rightarrow> os_string \<Rightarrow> os_string option" where
  "var_os parent key = map_of parent key"

record command_env =
  ce_clear :: bool
  ce_vars :: "(os_string \<times> os_string option) list"

definition env_default :: command_env where
  "env_default = \<lparr>ce_clear = False, ce_vars = []\<rparr>"

definition env_set :: "os_string \<Rightarrow> os_string \<Rightarrow> command_env \<Rightarrow> command_env" where
  "env_set key v e = e\<lparr>ce_vars := bt_insert key (Some v) (ce_vars e)\<rparr>"

definition env_unset :: "os_string \<Rightarrow> command_env \<Rightarrow> command_env" where
  "env_unset key e =
     (if ce_clear e then e\<lparr>ce_vars := bt_remove key (ce_vars e)\<rparr>
      else e\<lparr>ce_vars := bt_insert key None (ce_vars e)\<rparr>)"

definition env_clear_all :: "command_env \<Rightarrow> command_env" where
  "env_clear_all e = \<lparr>ce_clear = True, ce_vars = []\<rparr>"

definition env_set_all :: "(os_string \<times> os_string) list \<Rightarrow> command_env \<Rightarrow> command_env" where
  "env_set_all kvs e = fold (\<lambda>(k, v). env_set k v) kvs e"

fun apply_override ::
  "os_string \<times> os_string option \<Rightarrow> (os_string \<times> os_string) list \<Rightarrow> (os_string \<times> os_string) list" where
  "apply_override (k, Some v) m = bt_insert k v m"
| "apply_override (k, None) m = bt_remove k m"

text \<open>The block of variables the child is started with.\<close>

definition child_env :: "parent_env \<Rightarrow> command_env \<Rightarrow> (os_string \<times> os_string) list" where
  "child_env parent e =
     fold apply_override (ce_vars e)
       (if ce_clear e then [] else fold (\<lambda>(k, v). bt_insert k v) parent [])"

definition env_wf :: "command_env \<Rightarrow> bool" where
  "env_wf e \<longleftrightarrow> ce_clear e \<and> bt_wf (ce_vars e) \<and> None \<notin> snd ` set (ce_vars e)"

lemma bt_insert_set: "set (bt_insert k v m) \<subseteq> insert (k, v) (set m)"
  by (induction k v m rule: bt_insert.induct) auto

lemma bt_remove_set: "set (bt_remove k m) \<subseteq> set m"
  by (induction k m rule: bt_remove.induct) auto

lemma env_wf_clear_all: "env_wf (env_clear_all e)"
  by (simp add: env_wf_def env_clear_all_def btree.wf_empty)

lemma env_wf_set: "env_wf e \<Longrightarrow> env_wf (env_set k v e)"
  using bt_insert_set [of k "Some v" "ce_vars e"]
  by (force simp: env_wf_def env_set_def bt_wf_insert)

lemma env_wf_unset: "env_wf e \<Longrightarrow> env_wf (env_unset k e)"
  using bt_remove_set [of k "ce_vars e"]
  by (force simp: env_wf_def env_unset_def bt_wf_remove)

lemma env_wf_set_all: "env_wf e \<Longrightarrow> env_wf (env_set_all kvs e)"
  unfolding env_set_all_def by (induction kvs arbitrary: e) (auto simp: env_wf_set)

text \<open>
  A cleared environment: the child's variables are exactly the recorded values, so a lookup
  in the child is a lookup in the overrides.
\<close>

definition env_lookup :: "command_env \<Rightarrow> os_string \<Rightarrow> os_string option" where
  "env_lookup e k = (case map_of (ce_vars e) k of Some (Some v) \<Rightarrow> Some v | _ \<Rightarrow> None)"

lemma fold_apply_override_values:
  "None \<notin> snd ` set kvs \<Longrightarrow> bt_wf m \<Longrightarrow>
   bt_wf (fold apply_override kvs m) \<and>
   map_of (fold apply_override kvs m) =
     (\<lambda>k. case map_of (rev kvs) k of Some (Some v) \<Rightarrow> Some v | _ \<Rightarrow> map_of m k)"
proof (induction kvs arbitrary: m)
  case Nil
  then show ?case by simp
next
  case (Cons kv kvs)
  then obtain k v where kv: "kv = (k, Some v)"
    by (cases kv) (metis image_eqI list.set_intros(1) not_None_eq snd_conv)
  have none: "map_of (rev kvs) k \<noteq> Some None" for k
    using Cons.prems(1) by (auto dest!: map_of_SomeD) force
  show ?case
    using Cons none by (auto simp: kv bt_wf_insert bt_insert_lookup fun_eq_iff
        split: option.splits)
qed

lemma map_of_rev_distinct: "distinct (map fst m) \<Longrightarrow> map_of (rev m) = map_of m"
  by (subst map_of_inject_set) (simp_all add: rev_map [symmetric])

lemma child_env_lookup:
  assumes "env_wf e"
  shows "map_of (child_env parent e) = env_lookup e"
proof -
  have "map_of (rev (ce_vars e)) = map_of (ce_vars e)"
    using assms by (intro map_of_rev_distinct btree.distinct_entries) (simp add: env_wf_def)
  then show ?thesis
    using assms fold_apply_override_values [of "ce_vars e" "[]"]
    by (simp add: child_env_def env_lookup_def env_wf_def btree.wf_empty fun_eq_iff
        split: option.split)
qed

lemma env_lookup_clear_all [simp]: "env_lookup (env_clear_all e) = Map.empty"
  by (simp add: env_lookup_def env_clear_all_def fun_eq_iff)

lemma env_lookup_set: "env_lookup (env_set k v e) = (env_lookup e)(k \<mapsto> v)"
  by (auto simp: env_lookup_def env_set_def bt_insert_lookup fun_eq_iff)

lemma env_lookup_unset: "env_wf e \<Longrightarrow> env_lookup (env_unset k e) = (env_lookup e)(k := None)"
  by (auto simp: env_lookup_def env_unset_def env_wf_def bt_remove_lookup fun_eq_iff)

lemma env_lookup_set_all:
  "env_lookup (env_set_all kvs e) = env_lookup e ++ map_of (rev kvs)"
  unfolding env_set_all_def
  by (induction kvs arbitrary: e)
    (auto simp: env_lookup_set map_add_def fun_eq_iff split: option.split)

section \<open>The builder\<close>

datatype stdio = Null | Piped | Inherit | FromFile nat

record std_command =
  sc_program :: os_string
  sc_args :: "os_string list"
  sc_env :: command_env
  sc_cwd :: "os_string option"
  sc_stdin :: stdio
  sc_stdout :: stdio
  sc_stderr :: stdio
  sc_pgroup :: "int option"

definition std_command_new :: "os_string \<Rightarrow> std_command" where
  "std_command_new p =
     \<lparr>sc_program = p, sc_args = [], sc_env = env_default, sc_cwd = None,
      sc_stdin = Inherit, sc_stdout = Inherit, sc_stderr = Inherit, sc_pgroup = None\<rparr>"

end
