(* ===== verification/Command_Builder.thy ===== *)
theory Command_Builder
  imports Policy Std_Process
begin

text \<open>
  The typestate command builder (\<open>command.rs\<close>): the builder record and its operations, the
  transitions to the runnable and the streaming state, validation of the program against the
  child's \<open>PATH\<close>, translation into a standard process builder, and the redacted debug view.
\<close>

section \<open>The builder\<close>

datatype env_op = EnvSet os_string os_string | EnvRemove os_string

record 's command =
  c_program :: os_string
  c_args :: "os_string list"
  c_environment :: environment_policy
  c_env_ops :: "env_op list"
  c_cwd :: "os_string option"
  c_stdin :: "stdio option"
  c_stdout :: "stdio option"
  c_stderr :: "stdio option"
  c_stdout_capture :: capture_policy
  c_stderr_capture :: capture_policy
  c_state :: 's

definition command_new :: "os_string \<Rightarrow> draft command" where
  "command_new p =
     \<lparr>c_program = p, c_args = [], c_environment = env_policy_default, c_env_ops = [],
      c_cwd = None, c_stdin = None, c_stdout = None, c_stderr = None,
      c_stdout_capture = capture_policy_default, c_stderr_capture = capture_policy_default,
      c_state = Draft\<rparr>"

definition into_state :: "'s command \<Rightarrow> 't \<Rightarrow> 't command" where
  "into_state c st =
     \<lparr>c_program = c_program c, c_args = c_args c, c_environment = c_environment c,
      c_env_ops = c_env_ops c, c_cwd = c_cwd c, c_stdin = c_stdin c, c_stdout = c_stdout c,
      c_stderr = c_stderr c, c_stdout_capture = c_stdout_capture c,
      c_stderr_capture = c_stderr_capture c, c_state = st\<rparr>"

definition command_deadline ::
  "nat \<Rightarrow> instant \<Rightarrow> draft command \<Rightarrow> duration \<Rightarrow> epi_error + ready command" where
  "command_deadline limit now c d =
     (case validate_deadline limit now d of
        Err e \<Rightarrow> Err e
      | Ok _ \<Rightarrow> Ok (into_state c (ready_new (Deadline d))))"

definition command_unbounded :: "draft command \<Rightarrow> utext \<Rightarrow> epi_error + ready command" where
  "command_unbounded c reason =
     (case reason_new reason of
        Err e \<Rightarrow> Err e
      | Ok r \<Rightarrow> Ok (into_state c (ready_new (Unbounded r))))"

definition command_arg :: "'s command \<Rightarrow> os_string \<Rightarrow> 's command" where
  "command_arg c a = c\<lparr>c_args := c_args c @ [a]\<rparr>"

definition command_args :: "'s command \<Rightarrow> os_string list \<Rightarrow> 's command" where
  "command_args c as = c\<lparr>c_args := c_args c @ as\<rparr>"

definition command_environment :: "'s command \<Rightarrow> environment_policy \<Rightarrow> 's command" where
  "command_environment c p = c\<lparr>c_environment := p\<rparr>"

definition clean_environment :: "'s command \<Rightarrow> 's command" where
  "clean_environment c = command_environment c Clean"

definition allow_environment :: "'s command \<Rightarrow> os_string list \<Rightarrow> 's command" where
  "allow_environment c keys = command_environment c (allowlist keys)"

definition inherit_environment :: "'s command \<Rightarrow> utext \<Rightarrow> epi_error + 's command" where
  "inherit_environment c reason =
     (case inherit_all reason of
        Err e \<Rightarrow> Err e
      | Ok p \<Rightarrow> Ok (c\<lparr>c_environment := p\<rparr>))"

definition command_env :: "'s command \<Rightarrow> os_string \<Rightarrow> os_string \<Rightarrow> 's command" where
  "command_env c k v = c\<lparr>c_env_ops := c_env_ops c @ [EnvSet k v]\<rparr>"

definition command_env_remove :: "'s command \<Rightarrow> os_string \<Rightarrow> 's command" where
  "command_env_remove c k = c\<lparr>c_env_ops := c_env_ops c @ [EnvRemove k]\<rparr>"

definition command_envs :: "'s command \<Rightarrow> (os_string \<times> os_string) list \<Rightarrow> 's command" where
  "command_envs c vars = fold (\<lambda>(k, v) c. c\<lparr>c_env_ops := c_env_ops c @ [EnvSet k v]\<rparr>) vars c"

definition command_cwd :: "'s command \<Rightarrow> os_string \<Rightarrow> 's command" where
  "command_cwd c dir = c\<lparr>c_cwd := Some dir\<rparr>"

definition current_dir :: "'s command \<Rightarrow> os_string \<Rightarrow> 's command" where
  "current_dir c dir = command_cwd c dir"

definition command_stdin :: "'s command \<Rightarrow> stdio \<Rightarrow> 's command" where
  "command_stdin c io = c\<lparr>c_stdin := Some io\<rparr>"

definition command_stdout :: "'s command \<Rightarrow> stdio \<Rightarrow> 's command" where
  "command_stdout c io = c\<lparr>c_stdout := Some io\<rparr>"

definition command_stderr :: "'s command \<Rightarrow> stdio \<Rightarrow> 's command" where
  "command_stderr c io = c\<lparr>c_stderr := Some io\<rparr>"

definition capture_stdout :: "'s command \<Rightarrow> capture_policy \<Rightarrow> 's command" where
  "capture_stdout c p = c\<lparr>c_stdout_capture := p\<rparr>"

definition capture_stderr :: "'s command \<Rightarrow> capture_policy \<Rightarrow> 's command" where
  "capture_stderr c p = c\<lparr>c_stderr_capture := p\<rparr>"

definition command_program :: "'s command \<Rightarrow> os_string" where
  "command_program c = c_program c"

definition arg_list :: "'s command \<Rightarrow> os_string list" where
  "arg_list c = c_args c"

definition get_args :: "'s command \<Rightarrow> os_string list" where
  "get_args c = map id (c_args c)"

fun record_env_op ::
  "env_op \<Rightarrow> (os_string \<times> os_string option) list \<Rightarrow> (os_string \<times> os_string option) list" where
  "record_env_op (EnvSet k v) m = bt_insert k (Some v) m"
| "record_env_op (EnvRemove k) m = bt_insert k None m"

definition get_envs :: "'s command \<Rightarrow> (os_string \<times> os_string option) list" where
  "get_envs c = fold record_env_op (c_env_ops c) []"

definition execution_policy_of :: "ready command \<Rightarrow> execution_policy" where
  "execution_policy_of c = ready_execution (c_state c)"

section \<open>Streaming\<close>

datatype streaming_command = StreamingCommand (streaming_inner: "ready command")

definition streaming :: "ready command \<Rightarrow> epi_error + streaming_command" where
  "streaming c =
     (if \<not> is_default (c_stdout_capture c)
      then Err (InvalidPolicy (CapturePolicyWithStreaming Stdout))
      else if \<not> is_default (c_stderr_capture c)
      then Err (InvalidPolicy (CapturePolicyWithStreaming Stderr))
      else Ok (StreamingCommand c))"

section \<open>Preparation\<close>

text \<open>The platform the crate is compiled for decides at compile time which backend exists.\<close>

record target =
  target_unix :: bool
  target_os :: string

definition backend_supported :: "target \<Rightarrow> bool" where
  "backend_supported t \<longleftrightarrow>
     target_unix t \<and>
     target_os t \<notin> {''cygwin'', ''horizon'', ''openbsd'', ''redox'', ''wasi''}"

definition validate_backend :: "target \<Rightarrow> epi_error + unit" where
  "validate_backend t =
     (if backend_supported t then Ok () else Err (UnsupportedCapability OwnedProcessGroup))"

definition path_key :: os_string where
  "path_key = ''PATH''"

fun path_step :: "env_op \<Rightarrow> bool \<Rightarrow> bool" where
  "path_step (EnvSet k _) available = (if k = path_key then True else available)"
| "path_step (EnvRemove k) available = (if k = path_key then False else available)"

definition path_available :: "parent_env \<Rightarrow> 's command \<Rightarrow> bool" where
  "path_available parent c =
     fold path_step (c_env_ops c)
       (allows_key (c_environment c) path_key \<and> var_os parent path_key \<noteq> None)"

definition names_a_path :: "'s command \<Rightarrow> bool" where
  "names_a_path c \<longleftrightarrow> is_absolute (c_program c) \<or> 1 < length (components (c_program c))"

definition validate_path_policy :: "parent_env \<Rightarrow> 's command \<Rightarrow> epi_error + unit" where
  "validate_path_policy parent c =
     (if names_a_path c then Ok ()
      else if path_available parent c then Ok ()
      else Err (InvalidPolicy (BareProgramWithoutPath (c_program c))))"

record prepared_command =
  pc_command :: std_command
  pc_program :: label
  pc_execution :: execution_policy
  pc_stdout_capture :: capture_policy
  pc_stderr_capture :: capture_policy

definition apply_policy :: "parent_env \<Rightarrow> environment_policy \<Rightarrow> command_env \<Rightarrow> command_env" where
  "apply_policy parent p e =
     (case p of
        Clean \<Rightarrow> e
      | Allowlist keys \<Rightarrow>
          fold (\<lambda>key e. case var_os parent key of Some v \<Rightarrow> env_set key v e | None \<Rightarrow> e)
            (map fst keys) e
      | InheritAll _ \<Rightarrow> env_set_all parent e)"

fun apply_env_op :: "env_op \<Rightarrow> command_env \<Rightarrow> command_env" where
  "apply_env_op (EnvSet k v) e = env_set k v e"
| "apply_env_op (EnvRemove k) e = env_unset k e"

definition prepare ::
  "target \<Rightarrow> parent_env \<Rightarrow> ready command \<Rightarrow> epi_error + prepared_command" where
  "prepare t parent c =
     (case validate_backend t of
        Err e \<Rightarrow> Err e
      | Ok _ \<Rightarrow>
     (case validate_path_policy parent c of
        Err e \<Rightarrow> Err e
      | Ok _ \<Rightarrow>
     (let process = std_command_new (c_program c);
          process = process\<lparr>sc_args := sc_args process @ c_args c\<rparr>;
          process = process\<lparr>sc_env := env_clear_all (sc_env process)\<rparr>;
          process = process\<lparr>sc_env := apply_policy parent (c_environment c) (sc_env process)\<rparr>;
          process = process\<lparr>sc_env := fold apply_env_op (c_env_ops c) (sc_env process)\<rparr>;
          process = (case c_cwd c of None \<Rightarrow> process | Some dir \<Rightarrow> process\<lparr>sc_cwd := Some dir\<rparr>);
          process = process\<lparr>sc_stdin := (case c_stdin c of None \<Rightarrow> Null | Some io \<Rightarrow> io)\<rparr>;
          process = process\<lparr>sc_stdout := (case c_stdout c of None \<Rightarrow> Piped | Some io \<Rightarrow> io)\<rparr>;
          process = process\<lparr>sc_stderr := (case c_stderr c of None \<Rightarrow> Piped | Some io \<Rightarrow> io)\<rparr>;
          process = (if backend_supported t then process\<lparr>sc_pgroup := Some 0\<rparr> else process)
      in Ok \<lparr>pc_command = process, pc_program = PathDisplay (c_program c),
             pc_execution = into_execution (c_state c),
             pc_stdout_capture = c_stdout_capture c,
             pc_stderr_capture = c_stderr_capture c\<rparr>)))"

section \<open>What the builder promises about the environment\<close>

text \<open>
  The abstract specification: the policy gives the base bindings, then the recorded
  operations are applied to the finite map in call order.
\<close>

definition base_env :: "parent_env \<Rightarrow> environment_policy \<Rightarrow> os_string \<rightharpoonup> os_string" where
  "base_env parent p =
     (case p of
        Clean \<Rightarrow> Map.empty
      | Allowlist keys \<Rightarrow> (\<lambda>k. if bset_contains keys k then var_os parent k else None)
      | InheritAll _ \<Rightarrow> map_of (rev parent))"

fun map_env_op :: "env_op \<Rightarrow> (os_string \<rightharpoonup> os_string) \<Rightarrow> (os_string \<rightharpoonup> os_string)" where
  "map_env_op (EnvSet k v) m = m(k \<mapsto> v)"
| "map_env_op (EnvRemove k) m = m(k := None)"

definition intended_env :: "parent_env \<Rightarrow> 's command \<Rightarrow> os_string \<rightharpoonup> os_string" where
  "intended_env parent c = fold map_env_op (c_env_ops c) (base_env parent (c_environment c))"

lemma apply_allowlist:
  "env_wf e \<Longrightarrow>
   env_wf (fold (\<lambda>key e. case var_os parent key of Some v \<Rightarrow> env_set key v e | None \<Rightarrow> e) ks e) \<and>
   env_lookup (fold (\<lambda>key e. case var_os parent key of Some v \<Rightarrow> env_set key v e | None \<Rightarrow> e) ks e) =
     (\<lambda>k. if k \<in> set ks \<and> var_os parent k \<noteq> None then var_os parent k else env_lookup e k)"
  by (induction ks arbitrary: e)
    (auto simp: env_wf_set env_lookup_set fun_eq_iff split: option.splits)

lemma apply_policy_correct:
  "env_wf (apply_policy parent p (env_clear_all e)) \<and>
   env_lookup (apply_policy parent p (env_clear_all e)) = base_env parent p"
  using apply_allowlist [OF env_wf_clear_all, of parent _ e]
  by (auto simp: apply_policy_def base_env_def env_wf_clear_all env_wf_set_all env_lookup_set_all
      bset_contains_def fun_eq_iff split: environment_policy.split)

lemma apply_env_ops_correct:
  "env_wf e \<Longrightarrow>
   env_wf (fold apply_env_op ops e) \<and>
   env_lookup (fold apply_env_op ops e) = fold map_env_op ops (env_lookup e)"
proof (induction ops arbitrary: e)
  case Nil
  then show ?case by simp
next
  case (Cons op ops)
  then show ?case
    by (cases op)
      (simp_all add: env_wf_set env_wf_unset env_lookup_set env_lookup_unset del: fun_upd_apply)
qed

lemma prepare_Ok:
  "prepare t parent c = Ok pc \<longleftrightarrow>
     backend_supported t \<and> validate_path_policy parent c = Ok () \<and>
     pc = \<lparr>pc_command =
             \<lparr>sc_program = c_program c, sc_args = c_args c,
              sc_env = fold apply_env_op (c_env_ops c)
                (apply_policy parent (c_environment c) (env_clear_all env_default)),
              sc_cwd = c_cwd c,
              sc_stdin = (case c_stdin c of None \<Rightarrow> Null | Some io \<Rightarrow> io),
              sc_stdout = (case c_stdout c of None \<Rightarrow> Piped | Some io \<Rightarrow> io),
              sc_stderr = (case c_stderr c of None \<Rightarrow> Piped | Some io \<Rightarrow> io),
              sc_pgroup = Some 0\<rparr>,
           pc_program = PathDisplay (c_program c), pc_execution = execution (c_state c),
           pc_stdout_capture = c_stdout_capture c, pc_stderr_capture = c_stderr_capture c\<rparr>"
  by (auto simp: prepare_def validate_backend_def std_command_new_def into_execution_def Let_def
      split: sum.splits option.splits)

lemma prepared_child_env:
  "prepare t parent c = Ok pc \<Longrightarrow>
   map_of (child_env parent (sc_env (pc_command pc))) = intended_env parent c"
  using apply_policy_correct [of parent "c_environment c" env_default]
    apply_env_ops_correct [of "apply_policy parent (c_environment c) (env_clear_all env_default)"]
  by (auto simp: prepare_Ok child_env_lookup intended_env_def)

lemma fold_path_step:
  "fold path_step ops b \<longleftrightarrow> fold map_env_op ops m path_key \<noteq> None"
  if "b \<longleftrightarrow> m path_key \<noteq> None" for b :: bool and m :: "os_string \<rightharpoonup> os_string"
  using that
proof (induction ops arbitrary: b m)
  case Nil
  then show ?case by simp
next
  case (Cons op ops)
  show ?case
    unfolding fold_simps(2) comp_apply
    by (rule Cons.IH) (use Cons.prems in \<open>cases op; simp\<close>)
qed

lemma base_env_path:
  "base_env parent p k \<noteq> None \<longleftrightarrow> allows_key p k \<and> var_os parent k \<noteq> None"
  by (auto simp: base_env_def allows_key_def var_os_def map_of_eq_None_iff
      simp del: not_None_eq split: environment_policy.split)

lemma path_available_iff:
  "path_available parent c \<longleftrightarrow> intended_env parent c path_key \<noteq> None"
  unfolding path_available_def intended_env_def
  by (rule fold_path_step) (simp add: base_env_path del: not_None_eq)

lemma get_envs_fold:
  "bt_wf m \<Longrightarrow>
   bt_wf (fold record_env_op ops m) \<and>
   map_of (fold record_env_op ops m) =
     map_of m ++ map_of (rev (map (\<lambda>op. case op of EnvSet k v \<Rightarrow> (k, Some v) | EnvRemove k \<Rightarrow> (k, None)) ops))"
proof (induction ops arbitrary: m)
  case Nil
  then show ?case by simp
next
  case (Cons op ops)
  then show ?case
    by (cases op) (auto simp: bt_wf_insert bt_insert_lookup map_add_def fun_eq_iff split: option.split)
qed

text \<open>The effective view decides the child's environment wherever it has an entry.\<close>

lemma fold_map_env_op_last:
  "fold map_env_op ops m k =
     (case map_of (rev (map (\<lambda>op. case op of EnvSet k v \<Rightarrow> (k, Some v) | EnvRemove k \<Rightarrow> (k, None)) ops)) k of
        Some o' \<Rightarrow> o' | None \<Rightarrow> m k)"
proof (induction ops arbitrary: m)
  case Nil
  then show ?case by simp
next
  case (Cons op ops)
  then show ?case by (cases op) (auto simp: map_add_def split: option.split)
qed

lemma get_envs_wf: "bt_wf (get_envs c)"
  using get_envs_fold [OF btree.wf_empty] by (simp add: get_envs_def)

lemma intended_env_get_envs:
  "intended_env parent c k =
     (case map_of (get_envs c) k of Some o' \<Rightarrow> o' | None \<Rightarrow> base_env parent (c_environment c) k)"
  using get_envs_fold [OF btree.wf_empty, of "c_env_ops c"]
  by (simp add: intended_env_def get_envs_def fold_map_env_op_last)

section \<open>Debug views\<close>

text \<open>
  A \<open>Debug\<close> rendering as the tree the formatter is handed: names, quoted strings, tuples
  and structs. Environment values never reach the tree.
\<close>

datatype debug_tree =
  DName string
| DQuoted string
| DText utext
| DNumber nat
| DSeq "debug_tree list"
| DTuple string "debug_tree list"
| DStruct string "(string \<times> debug_tree) list"

definition debug_option :: "('a \<Rightarrow> debug_tree) \<Rightarrow> 'a option \<Rightarrow> debug_tree" where
  "debug_option f x = (case x of None \<Rightarrow> DName ''None'' | Some v \<Rightarrow> DTuple ''Some'' [f v])"

fun debug_env_op :: "env_op \<Rightarrow> debug_tree" where
  "debug_env_op (EnvSet k _) = DTuple ''Set'' [DQuoted k, DQuoted ''<redacted>'']"
| "debug_env_op (EnvRemove k) = DTuple ''Remove'' [DQuoted k]"

fun debug_reason :: "non_empty_reason \<Rightarrow> debug_tree" where
  "debug_reason (NonEmptyReason r) = DTuple ''NonEmptyReason'' [DText r]"

fun debug_environment :: "environment_policy \<Rightarrow> debug_tree" where
  "debug_environment Clean = DName ''Clean''"
| "debug_environment (Allowlist keys) = DTuple ''Allowlist'' [DSeq (map (\<lambda>k. DQuoted (fst k)) keys)]"
| "debug_environment (InheritAll r) = DTuple ''InheritAll'' [debug_reason r]"

fun debug_overflow :: "overflow_behavior \<Rightarrow> debug_tree" where
  "debug_overflow FailClosed = DName ''FailClosed''"
| "debug_overflow TruncateAndDrain = DName ''TruncateAndDrain''"

fun debug_capture :: "capture_policy \<Rightarrow> debug_tree" where
  "debug_capture (Bounded limit overflow) =
     DStruct ''Bounded'' [(''limit'', DNumber (unat limit)), (''overflow'', debug_overflow overflow)]"
| "debug_capture (UnboundedCapture r) = DTuple ''Unbounded'' [debug_reason r]"

definition debug_configured :: "stdio option \<Rightarrow> debug_tree" where
  "debug_configured io = debug_option DQuoted (map_option (\<lambda>_. ''configured'') io)"

definition debug_command :: "('s \<Rightarrow> debug_tree) \<Rightarrow> 's command \<Rightarrow> debug_tree" where
  "debug_command debug_state c =
     DStruct ''Command''
       [(''program'', DQuoted (c_program c)),
        (''args'', DSeq (map DQuoted (c_args c))),
        (''environment'', debug_environment (c_environment c)),
        (''env_ops'', DSeq (map debug_env_op (c_env_ops c))),
        (''cwd'', debug_option DQuoted (c_cwd c)),
        (''stdin'', debug_configured (c_stdin c)),
        (''stdout'', debug_configured (c_stdout c)),
        (''stderr'', debug_configured (c_stderr c)),
        (''stdout_capture'', debug_capture (c_stdout_capture c)),
        (''stderr_capture'', debug_capture (c_stderr_capture c)),
        (''state'', debug_state (c_state c))]"

fun debug_execution :: "execution_policy \<Rightarrow> debug_tree" where
  "debug_execution (Deadline d) = DTuple ''Deadline'' [DNumber d]"
| "debug_execution (Unbounded r) = DTuple ''Unbounded'' [debug_reason r]"

definition debug_ready :: "ready \<Rightarrow> debug_tree" where
  "debug_ready r = DStruct ''Ready'' [(''execution'', debug_execution (execution r))]"

fun debug_streaming :: "streaming_command \<Rightarrow> debug_tree" where
  "debug_streaming (StreamingCommand c) = DTuple ''StreamingCommand'' [debug_command debug_ready c]"

text \<open>Two operations that differ in nothing but the value they set.\<close>

fun same_key :: "env_op \<Rightarrow> env_op \<Rightarrow> bool" where
  "same_key (EnvSet k _) (EnvSet k' _) = (k = k')"
| "same_key (EnvRemove k) (EnvRemove k') = (k = k')"
| "same_key _ _ = False"

lemma debug_env_op_same_key: "same_key a b \<Longrightarrow> debug_env_op a = debug_env_op b"
  by (cases a; cases b) auto

lemma debug_env_ops_same_key:
  "list_all2 same_key xs ys \<Longrightarrow> map debug_env_op xs = map debug_env_op ys"
  by (induction rule: list_all2_induct) (auto simp: debug_env_op_same_key)

end
