(* ===== verification/Os_Interface.thy ===== *)
theory Os_Interface
  imports Std_Process
begin

text \<open>
  The world around a supervisor. A history is the list of the calls one invocation has made,
  oldest first, each with its result; an environment answers every call as a function of the
  history so far, so that every behaviour of the kernel, the clock, the allocator, the
  scheduler, the child and the other threads is some environment. Each call of the source is
  a wrapper that asks the environment and records the answer.
\<close>

section \<open>Calls and histories\<close>

datatype pipe = ChildStdin | ChildStdout | ChildStderr

datatype try_recv = Received | Disconnected | NoMessage

datatype event =
  EvNow instant
| EvThread string "io_error + unit"
| EvSpawn "io_error + u32"
| EvGetFlags pipe "errno + u32"
| EvSetFlags pipe u32 "errno + unit"
| EvCancelled bool
| EvWaitId u32 "errno + exit_status option"
| EvPoll "pipe list" duration "errno + bool list"
| EvSleep duration
| EvRead pipe nat "io_error + byte list"
| EvReserve usize bool
| EvKill u32 "errno + unit"
| EvWait u32 "io_error + exit_status"
| EvHandOff u32 bool
| EvCancelTry try_recv
| EvCancelWait duration try_recv
| EvStartup bool

type_synonym history = "event list"

record os_env =
  instant_limit :: nat
  nonblock_flag :: u32
  on_now :: "history \<Rightarrow> instant"
  on_thread :: "history \<Rightarrow> string \<Rightarrow> io_error + unit"
  on_spawn :: "history \<Rightarrow> std_command \<Rightarrow> io_error + u32"
  on_getfl :: "history \<Rightarrow> pipe \<Rightarrow> errno + u32"
  on_setfl :: "history \<Rightarrow> pipe \<Rightarrow> u32 \<Rightarrow> errno + unit"
  on_cancelled :: "history \<Rightarrow> bool"
  on_waitid :: "history \<Rightarrow> u32 \<Rightarrow> errno + exit_status option"
  on_poll :: "history \<Rightarrow> pipe list \<Rightarrow> duration \<Rightarrow> errno + (pipe \<Rightarrow> bool)"
  on_read :: "history \<Rightarrow> pipe \<Rightarrow> nat \<Rightarrow> io_error + byte list"
  on_reserve :: "history \<Rightarrow> usize \<Rightarrow> bool"
  on_kill :: "history \<Rightarrow> u32 \<Rightarrow> errno + unit"
  on_wait :: "history \<Rightarrow> u32 \<Rightarrow> io_error + exit_status"
  on_handoff :: "history \<Rightarrow> u32 \<Rightarrow> bool"
  on_cancel_try :: "history \<Rightarrow> try_recv"
  on_cancel_wait :: "history \<Rightarrow> duration \<Rightarrow> try_recv"
  on_startup :: "history \<Rightarrow> bool"

section \<open>The calls\<close>

definition sys_now :: "os_env \<Rightarrow> history \<Rightarrow> instant \<times> history" where
  [io_defs]: "sys_now E h = (let t = on_now E h in (t, h @ [EvNow t]))"

definition sys_thread :: "os_env \<Rightarrow> string \<Rightarrow> history \<Rightarrow> (io_error + unit) \<times> history" where
  [io_defs]: "sys_thread E name h = (let r = on_thread E h name in (r, h @ [EvThread name r]))"

definition sys_spawn :: "os_env \<Rightarrow> std_command \<Rightarrow> history \<Rightarrow> (io_error + u32) \<times> history" where
  [io_defs]: "sys_spawn E c h = (let r = on_spawn E h c in (r, h @ [EvSpawn r]))"

definition sys_getfl :: "os_env \<Rightarrow> pipe \<Rightarrow> history \<Rightarrow> (errno + u32) \<times> history" where
  [io_defs]: "sys_getfl E p h = (let r = on_getfl E h p in (r, h @ [EvGetFlags p r]))"

definition sys_setfl :: "os_env \<Rightarrow> pipe \<Rightarrow> u32 \<Rightarrow> history \<Rightarrow> (errno + unit) \<times> history" where
  [io_defs]: "sys_setfl E p fl h = (let r = on_setfl E h p fl in (r, h @ [EvSetFlags p fl r]))"

definition sys_cancelled :: "os_env \<Rightarrow> history \<Rightarrow> bool \<times> history" where
  [io_defs]: "sys_cancelled E h = (let r = on_cancelled E h in (r, h @ [EvCancelled r]))"

definition sys_waitid :: "os_env \<Rightarrow> u32 \<Rightarrow> history \<Rightarrow> (errno + exit_status option) \<times> history" where
  [io_defs]: "sys_waitid E pid h = (let r = on_waitid E h pid in (r, h @ [EvWaitId pid r]))"

text \<open>A poll answers for the descriptors it was given, in their order.\<close>

definition sys_poll ::
  "os_env \<Rightarrow> pipe list \<Rightarrow> duration \<Rightarrow> history \<Rightarrow> (errno + (pipe \<Rightarrow> bool)) \<times> history" where
  [io_defs]: "sys_poll E ps timeout h =
     (let r = on_poll E h ps timeout
      in (r, h @ [EvPoll ps timeout (map_sum id (\<lambda>ready. map ready ps) r)]))"

definition sys_sleep :: "duration \<Rightarrow> history \<Rightarrow> history" where
  [io_defs]: "sys_sleep d h = h @ [EvSleep d]"

text \<open>A read fills a buffer of \<open>n\<close> bytes, so what it delivers is at most \<open>n\<close> bytes long.\<close>

definition sys_read :: "os_env \<Rightarrow> pipe \<Rightarrow> nat \<Rightarrow> history \<Rightarrow> (io_error + byte list) \<times> history" where
  [io_defs]: "sys_read E p n h =
     (let r = map_sum id (take n) (on_read E h p n) in (r, h @ [EvRead p n r]))"

definition sys_reserve :: "os_env \<Rightarrow> usize \<Rightarrow> history \<Rightarrow> bool \<times> history" where
  [io_defs]: "sys_reserve E n h = (let r = on_reserve E h n in (r, h @ [EvReserve n r]))"

definition sys_kill :: "os_env \<Rightarrow> u32 \<Rightarrow> history \<Rightarrow> (errno + unit) \<times> history" where
  [io_defs]: "sys_kill E pg h = (let r = on_kill E h pg in (r, h @ [EvKill pg r]))"

definition sys_wait :: "os_env \<Rightarrow> u32 \<Rightarrow> history \<Rightarrow> (io_error + exit_status) \<times> history" where
  [io_defs]: "sys_wait E pid h = (let r = on_wait E h pid in (r, h @ [EvWait pid r]))"

definition sys_handoff :: "os_env \<Rightarrow> u32 \<Rightarrow> history \<Rightarrow> bool \<times> history" where
  [io_defs]: "sys_handoff E pid h = (let r = on_handoff E h pid in (r, h @ [EvHandOff pid r]))"

definition sys_cancel_try :: "os_env \<Rightarrow> history \<Rightarrow> try_recv \<times> history" where
  [io_defs]: "sys_cancel_try E h = (let r = on_cancel_try E h in (r, h @ [EvCancelTry r]))"

definition sys_cancel_wait :: "os_env \<Rightarrow> duration \<Rightarrow> history \<Rightarrow> try_recv \<times> history" where
  [io_defs]: "sys_cancel_wait E d h = (let r = on_cancel_wait E h d in (r, h @ [EvCancelWait d r]))"

definition sys_startup :: "os_env \<Rightarrow> history \<Rightarrow> bool \<times> history" where
  [io_defs]: "sys_startup E h = (let r = on_startup E h in (r, h @ [EvStartup r]))"

section \<open>Children and errno values\<close>

record child =
  child_id :: u32
  child_stdin :: "pipe option"
  child_stdout :: "pipe option"
  child_stderr :: "pipe option"

text \<open>A spawned child holds a pipe end for exactly the streams configured as piped.\<close>

definition piped :: "stdio \<Rightarrow> pipe \<Rightarrow> pipe option" where
  "piped io p = (if io = Piped then Some p else None)"

definition spawned_child :: "std_command \<Rightarrow> u32 \<Rightarrow> child" where
  "spawned_child c pid =
     \<lparr>child_id = pid, child_stdin = piped (sc_stdin c) ChildStdin,
      child_stdout = piped (sc_stdout c) ChildStdout,
      child_stderr = piped (sc_stderr c) ChildStderr\<rparr>"

definition errno_to_io :: "errno \<Rightarrow> io_error" where
  "errno_to_io e = OsError e"

section \<open>Views of a history\<close>

fun read_bytes :: "pipe \<Rightarrow> event \<Rightarrow> byte list" where
  "read_bytes p (EvRead q _ (Ok bs)) = (if q = p then bs else [])"
| "read_bytes p _ = []"

definition bytes_read :: "pipe \<Rightarrow> history \<Rightarrow> byte list" where
  "bytes_read p h = concat (map (read_bytes p) h)"

fun is_eof :: "pipe \<Rightarrow> event \<Rightarrow> bool" where
  "is_eof p (EvRead q _ (Ok bs)) \<longleftrightarrow> q = p \<and> bs = []"
| "is_eof p _ \<longleftrightarrow> False"

definition eof_seen :: "pipe \<Rightarrow> history \<Rightarrow> bool" where
  "eof_seen p h \<longleftrightarrow> list_ex (is_eof p) h"

fun is_read :: "pipe \<Rightarrow> event \<Rightarrow> bool" where
  "is_read p (EvRead q _ _) \<longleftrightarrow> q = p"
| "is_read p _ \<longleftrightarrow> False"

definition read_count :: "pipe \<Rightarrow> history \<Rightarrow> nat" where
  "read_count p h = length (filter (is_read p) h)"

fun is_spawn :: "event \<Rightarrow> bool" where
  "is_spawn (EvSpawn _) \<longleftrightarrow> True"
| "is_spawn _ \<longleftrightarrow> False"

definition spawn_attempted :: "history \<Rightarrow> bool" where
  "spawn_attempted h \<longleftrightarrow> list_ex is_spawn h"

lemma bytes_read_Nil [simp]: "bytes_read p [] = []"
  by (simp add: bytes_read_def)

lemma bytes_read_append [view_simps]: "bytes_read p (h @ h') = bytes_read p h @ bytes_read p h'"
  by (simp add: bytes_read_def)

lemma bytes_read_single [view_simps]: "bytes_read p [e] = read_bytes p e"
  by (simp add: bytes_read_def)

lemma eof_seen_Nil [simp]: "\<not> eof_seen p []"
  by (simp add: eof_seen_def)

lemma eof_seen_append [view_simps]: "eof_seen p (h @ h') \<longleftrightarrow> eof_seen p h \<or> eof_seen p h'"
  by (simp add: eof_seen_def)

lemma eof_seen_single [view_simps]: "eof_seen p [e] \<longleftrightarrow> is_eof p e"
  by (simp add: eof_seen_def)

lemma read_count_Nil [simp]: "read_count p [] = 0"
  by (simp add: read_count_def)

lemma read_count_append [view_simps]: "read_count p (h @ h') = read_count p h + read_count p h'"
  by (simp add: read_count_def)

lemma read_count_single [view_simps]: "read_count p [e] = (if is_read p e then 1 else 0)"
  by (simp add: read_count_def)

lemma spawn_attempted_append [view_simps]:
  "spawn_attempted (h @ h') \<longleftrightarrow> spawn_attempted h \<or> spawn_attempted h'"
  by (simp add: spawn_attempted_def)

lemma spawn_attempted_simps [simp]:
  "\<not> spawn_attempted []"
  "spawn_attempted [e] \<longleftrightarrow> is_spawn e"
  by (simp_all add: spawn_attempted_def)

text \<open>The calls a view does not look at leave it alone.\<close>

lemma not_read_views:
  assumes "\<not> is_read p e"
  shows "bytes_read p (h @ [e]) = bytes_read p h" "eof_seen p (h @ [e]) = eof_seen p h"
    "read_count p (h @ [e]) = read_count p h"
  using assms by (auto simp: view_simps) (cases "(p, e)" rule: read_bytes.cases;
      cases "(p, e)" rule: is_eof.cases; auto)+

section \<open>Growing histories\<close>

text \<open>One history extends another by calls of a given kind only.\<close>

definition extends :: "(event \<Rightarrow> bool) \<Rightarrow> history \<Rightarrow> history \<Rightarrow> bool" where
  "extends P h h' \<longleftrightarrow> (\<exists>es. h' = h @ es \<and> list_all P es)"

lemma extends_refl [simp, intro]: "extends P h h"
  by (simp add: extends_def)

lemma extends_trans [trans]: "extends P h h' \<Longrightarrow> extends P h' h'' \<Longrightarrow> extends P h h''"
  by (auto simp: extends_def)

lemma extends_snoc: "extends P h h' \<Longrightarrow> P e \<Longrightarrow> extends P h (h' @ [e])"
  by (auto simp: extends_def)

lemma extends_tail: "extends P (h @ [e]) h' \<Longrightarrow> P e \<Longrightarrow> extends P h h'"
  by (auto simp: extends_def)

lemma extends_mono: "extends P h h' \<Longrightarrow> (\<And>e. P e \<Longrightarrow> Q e) \<Longrightarrow> extends Q h h'"
  by (auto simp: extends_def list_all_iff)

lemma extends_one [simp]: "extends P h (h @ [e]) \<longleftrightarrow> P e"
  by (simp add: extends_def)

lemma extends_subset: "extends P h h' \<Longrightarrow> set h \<subseteq> set h'"
  by (auto simp: extends_def)

lemma extends_unread:
  assumes "extends P h h'" and "\<And>e. P e \<Longrightarrow> \<not> is_read p e"
  shows "bytes_read p h' = bytes_read p h" "eof_seen p h' = eof_seen p h"
    "read_count p h' = read_count p h"
proof -
  obtain es where h': "h' = h @ es" and quiet: "list_all P es"
    using assms(1) by (auto simp: extends_def)
  from quiet have "bytes_read p (h @ es) = bytes_read p h \<and> eof_seen p (h @ es) = eof_seen p h
      \<and> read_count p (h @ es) = read_count p h"
  proof (induction es rule: rev_induct)
    case (snoc e es)
    then show ?case
      using not_read_views [of p e "h @ es"] assms(2) [of e] by (simp add: append_assoc)
  qed simp
  then show "bytes_read p h' = bytes_read p h" "eof_seen p h' = eof_seen p h"
    "read_count p h' = read_count p h"
    by (simp_all add: h')
qed

end
