(* ===== verification/Lifecycle_Spec.thy ===== *)
theory Lifecycle_Spec
  imports Os_Interface
begin

text \<open>
  What a lifecycle is allowed to do, as a monitor automaton over histories: one spawn; the
  group is signalled before the leader is reaped; a leader is reaped only after it was seen
  waitable, so the reap cannot block; nothing is signalled or waited for once the leader has
  been reaped or handed over, when its process id may belong to somebody else; and every
  call names the spawned process.
\<close>

datatype phase =
  NotSpawned
| Live u32 bool bool  \<comment> \<open>process id, seen waitable, group signalled\<close>
| ReapedLeader
| HandedOver
| Violated

fun advance :: "event \<Rightarrow> phase \<Rightarrow> phase" where
  "advance (EvSpawn (Ok pid)) ph = (if ph = NotSpawned then Live pid False False else Violated)"
| "advance (EvSpawn (Err _)) ph = (if ph = NotSpawned then NotSpawned else Violated)"
| "advance (EvWaitId pid r) ph =
     (case ph of
        Live pid' seen sig \<Rightarrow>
          if pid = pid' then Live pid' (seen \<or> (case r of Ok (Some _) \<Rightarrow> True | _ \<Rightarrow> False)) sig
          else Violated
      | _ \<Rightarrow> Violated)"
| "advance (EvKill pg r) ph =
     (case ph of
        Live pid seen sig \<Rightarrow> if pg = pid then Live pid seen True else Violated
      | _ \<Rightarrow> Violated)"
| "advance (EvWait pid r) ph =
     (case ph of
        Live pid' seen sig \<Rightarrow>
          if pid = pid' \<and> seen \<and> sig
          then (case r of Ok _ \<Rightarrow> ReapedLeader | Err _ \<Rightarrow> Live pid' seen sig)
          else Violated
      | _ \<Rightarrow> Violated)"
| "advance (EvHandOff pid ok) ph =
     (case ph of
        Live pid' seen sig \<Rightarrow>
          if pid = pid' \<and> sig then (if ok then HandedOver else Live pid' seen sig) else Violated
      | _ \<Rightarrow> Violated)"
| "advance (EvRead _ _ _) ph = (if ph = NotSpawned then Violated else ph)"
| "advance _ ph = ph"

definition phase_of :: "history \<Rightarrow> phase" where
  "phase_of h = fold advance h NotSpawned"

definition lifecycle_ok :: "history \<Rightarrow> bool" where
  "lifecycle_ok h \<longleftrightarrow> phase_of h \<noteq> Violated"

lemma phase_of_Nil [simp]: "phase_of [] = NotSpawned"
  by (simp add: phase_of_def)

lemma phase_of_snoc [view_simps]: "phase_of (h @ [e]) = advance e (phase_of h)"
  by (simp add: phase_of_def)

lemma advance_Violated: "advance e Violated = Violated"
  by (cases "(e, Violated)" rule: advance.cases) auto

lemma phase_of_append: "phase_of (h @ h') = fold advance h' (phase_of h)"
  by (simp add: phase_of_def)

lemma fold_advance_Violated: "fold advance h Violated = Violated"
  by (induction h) (auto simp: advance_Violated)

text \<open>A violation is never forgotten, so an accepted history has only accepted prefixes.\<close>

lemma lifecycle_ok_prefix: "lifecycle_ok (h @ h') \<Longrightarrow> lifecycle_ok h"
  by (auto simp: lifecycle_ok_def phase_of_append fold_advance_Violated)

section \<open>What acceptance means\<close>

lemma phase_Live_unspawned_calls:
  "phase_of h = Live pid seen sig \<Longrightarrow> seen \<Longrightarrow> \<exists>st. EvWaitId pid (Ok (Some st)) \<in> set h"
proof (induction h arbitrary: seen sig rule: rev_induct)
  case Nil
  then show ?case by simp
next
  case (snoc e h)
  then show ?case
    by (cases "(e, phase_of h)" rule: advance.cases)
      (auto simp: view_simps split: phase.splits if_splits sum.splits option.splits)
qed

lemma phase_Live_signalled:
  "phase_of h = Live pid seen True \<Longrightarrow> \<exists>r. EvKill pid r \<in> set h"
proof (induction h arbitrary: seen rule: rev_induct)
  case Nil
  then show ?case by simp
next
  case (snoc e h)
  then show ?case
    by (cases "(e, phase_of h)" rule: advance.cases)
      (auto simp: view_simps split: phase.splits if_splits sum.splits option.splits)
qed

text \<open>Every reap is preceded by the group signal and by a waitable observation.\<close>

lemma accepted_wait:
  assumes "lifecycle_ok h" and "h = before @ EvWait pid r # after"
  shows "(\<exists>k. EvKill pid k \<in> set before) \<and> (\<exists>st. EvWaitId pid (Ok (Some st)) \<in> set before)"
proof -
  have "lifecycle_ok (before @ [EvWait pid r])"
    using assms by (auto intro: lifecycle_ok_prefix [where h' = after])
  then have "phase_of before = Live pid True True"
    by (auto simp: lifecycle_ok_def view_simps split: phase.splits if_splits)
  then show ?thesis
    using phase_Live_signalled phase_Live_unspawned_calls by blast
qed

text \<open>After the leader is gone no further signal, wait, observation or transfer is accepted.\<close>

fun touches_leader :: "event \<Rightarrow> bool" where
  "touches_leader (EvSpawn _) \<longleftrightarrow> True"
| "touches_leader (EvWaitId _ _) \<longleftrightarrow> True"
| "touches_leader (EvKill _ _) \<longleftrightarrow> True"
| "touches_leader (EvWait _ _) \<longleftrightarrow> True"
| "touches_leader (EvHandOff _ _) \<longleftrightarrow> True"
| "touches_leader _ \<longleftrightarrow> False"

lemma gone_advance:
  "ph = ReapedLeader \<or> ph = HandedOver \<Longrightarrow> advance e ph = (if touches_leader e then Violated else ph)"
  by (cases "(e, ph)" rule: advance.cases) auto

lemma gone_stays:
  assumes "ph = ReapedLeader \<or> ph = HandedOver" and "fold advance h ph \<noteq> Violated"
  shows "\<forall>e \<in> set h. \<not> touches_leader e"
  using assms
  by (induction h) (auto simp: gone_advance fold_advance_Violated split: if_splits)

lemma accepted_after_reap:
  assumes "lifecycle_ok h" and "h = before @ EvWait pid (Ok st) # after"
  shows "\<forall>e \<in> set after. \<not> touches_leader e"
proof -
  have step: "phase_of h = fold advance after (advance (EvWait pid (Ok st)) (phase_of before))"
    by (simp add: assms(2) phase_of_append)
  with assms(1) have "advance (EvWait pid (Ok st)) (phase_of before) = ReapedLeader"
    by (auto simp: lifecycle_ok_def fold_advance_Violated split: phase.splits if_splits)
  with step assms(1) show ?thesis
    by (intro gone_stays [of ReapedLeader]) (simp_all add: lifecycle_ok_def)
qed

text \<open>Calls that do not touch the leader leave the phase of a spawned invocation alone.\<close>

lemma quiet_advance: "ph \<noteq> NotSpawned \<Longrightarrow> \<not> touches_leader e \<Longrightarrow> advance e ph = ph"
  by (cases "(e, ph)" rule: advance.cases) auto

lemma extends_phase:
  assumes "extends P h h'" and "\<And>e. P e \<Longrightarrow> \<not> touches_leader e" and "phase_of h \<noteq> NotSpawned"
  shows "phase_of h' = phase_of h"
proof -
  obtain es where "h' = h @ es" and "list_all P es"
    using assms(1) by (auto simp: extends_def)
  moreover have "fold advance es ph = ph" if "list_all P es" "ph \<noteq> NotSpawned" for es ph
    using that by (induction es) (simp_all add: quiet_advance assms(2))
  ultimately show ?thesis
    using assms(3) by (simp add: phase_of_append)
qed

text \<open>What the phase of an accepted history says about the calls in it.\<close>

definition reaped_in :: "history \<Rightarrow> bool" where
  "reaped_in h \<longleftrightarrow> (\<exists>pid st. EvWait pid (Ok st) \<in> set h)"

definition handed_over_in :: "history \<Rightarrow> bool" where
  "handed_over_in h \<longleftrightarrow> (\<exists>pid. EvHandOff pid True \<in> set h)"

lemma reaped_in_simps [simp]:
  "\<not> reaped_in []"
  "reaped_in (h @ h') \<longleftrightarrow> reaped_in h \<or> reaped_in h'"
  "reaped_in [e] \<longleftrightarrow> (\<exists>pid st. e = EvWait pid (Ok st))"
  by (auto simp: reaped_in_def)

lemma handed_over_in_simps [simp]:
  "\<not> handed_over_in []"
  "handed_over_in (h @ h') \<longleftrightarrow> handed_over_in h \<or> handed_over_in h'"
  "handed_over_in [e] \<longleftrightarrow> (\<exists>pid. e = EvHandOff pid True)"
  by (auto simp: handed_over_in_def)

lemma quiet_settles:
  "\<not> touches_leader e \<Longrightarrow> \<not> reaped_in [e]" "\<not> touches_leader e \<Longrightarrow> \<not> handed_over_in [e]"
  by auto

lemma phase_settlement:
  "lifecycle_ok h \<Longrightarrow>
     (reaped_in h \<longleftrightarrow> phase_of h = ReapedLeader) \<and> (handed_over_in h \<longleftrightarrow> phase_of h = HandedOver)"
proof (induction h rule: rev_induct)
  case Nil
  then show ?case by simp
next
  case (snoc e h)
  then have ok: "lifecycle_ok h" by (auto intro: lifecycle_ok_prefix)
  with snoc show ?case
    by (cases "(e, phase_of h)" rule: advance.cases)
      (auto simp: lifecycle_ok_def view_simps split: phase.splits if_splits sum.splits)
qed

text \<open>An accepted history spawns at most one child.\<close>

lemma advance_spawned: "ph \<noteq> NotSpawned \<Longrightarrow> advance e ph \<noteq> NotSpawned"
  by (cases "(e, ph)" rule: advance.cases) (auto split: phase.split sum.split)

lemma spawned_phase: "EvSpawn (Ok pid) \<in> set h \<Longrightarrow> phase_of h \<noteq> NotSpawned"
  by (induction h rule: rev_induct) (auto simp: view_simps advance_spawned split: if_splits)

lemma spawned_once:
  "lifecycle_ok h \<Longrightarrow> EvSpawn (Ok p) \<in> set h \<Longrightarrow> EvSpawn (Ok q) \<in> set h \<Longrightarrow> p = q"
proof (induction h rule: rev_induct)
  case (snoc e h)
  have ok: "lifecycle_ok h" using snoc.prems(1) by (rule lifecycle_ok_prefix)
  have "phase_of h = NotSpawned" if "e = EvSpawn (Ok r)" for r
    using snoc.prems(1) that by (simp add: lifecycle_ok_def view_simps split: if_splits)
  with snoc ok spawned_phase [of p h] spawned_phase [of q h] show ?case by auto
qed simp

end
