(* ===== verification/Capture.thy ===== *)
theory Capture
  imports Command_Builder Lifecycle_Spec
begin

text \<open>
  Capture of one output stream (\<open>CaptureStream\<close> in \<open>supervisor.rs\<close>): the stream's state,
  reading it in bounded turns, retaining a bounded prefix with saturating accounting, and the
  report made of it at the end. The specification relates the state to the bytes the pipe has
  delivered so far, which the history records.
\<close>

section \<open>State and operations\<close>

definition read_chunk :: nat where "read_chunk = 8 * 1024"
definition chunks_per_stream_turn :: nat where "chunks_per_stream_turn = 8"

datatype capture_storage =
  BoundedStorage "byte list" usize overflow_behavior
| UnboundedStorage "byte list"

record capture_stream =
  cap_name :: stream_name
  cap_pipe :: "pipe option"
  cap_storage :: capture_storage
  cap_discarded :: u64
  cap_overflow :: "usize option"
  cap_failure :: "capture_failure option"
  cap_eof :: bool
  cap_redirected :: bool

definition stream_new :: "stream_name \<Rightarrow> pipe option \<Rightarrow> capture_policy \<Rightarrow> capture_stream" where
  "stream_new name pipe policy =
     \<lparr>cap_name = name, cap_pipe = pipe,
      cap_storage =
        (case policy of
           Bounded limit overflow \<Rightarrow> BoundedStorage [] limit overflow
         | UnboundedCapture _ \<Rightarrow> UnboundedStorage []),
      cap_discarded = 0, cap_overflow = None, cap_failure = None, cap_eof = False,
      cap_redirected = (pipe = None)\<rparr>"

definition record_failure :: "io_error \<Rightarrow> capture_stream \<Rightarrow> capture_stream" where
  "record_failure e s =
     s\<lparr>cap_failure := get_or_insert (cap_failure s) (FailureRead (io_kind e) (io_text e)),
       cap_pipe := None\<rparr>"

definition make_nonblocking ::
  "os_env \<Rightarrow> capture_stream \<Rightarrow> history \<Rightarrow> capture_stream \<times> history" where
  "make_nonblocking E s h =
     (case cap_pipe s of
        None \<Rightarrow> (s, h)
      | Some p \<Rightarrow>
          (case sys_getfl E p h of
             (Err e, h) \<Rightarrow> (record_failure (errno_to_io e) s, h)
           | (Ok flags, h) \<Rightarrow>
               (case sys_setfl E p (or flags (nonblock_flag E)) h of
                  (Err e, h) \<Rightarrow> (record_failure (errno_to_io e) s, h)
                | (Ok _, h) \<Rightarrow> (s, h))))"

definition usize_to_u64 :: "usize \<Rightarrow> u64" where
  "usize_to_u64 v = v"

definition retain ::
  "os_env \<Rightarrow> byte list \<Rightarrow> capture_stream \<Rightarrow> history \<Rightarrow> capture_stream \<times> history" where
  "retain E chunk s h =
     (let (s, allocation_failed, h) =
        (case cap_storage s of
           UnboundedStorage bytes \<Rightarrow>
             (let (reserved, h) = sys_reserve E (len chunk) h
              in if reserved then (s\<lparr>cap_storage := UnboundedStorage (bytes @ chunk)\<rparr>, False, h)
                 else (s\<lparr>cap_discarded :=
                         saturating_add (cap_discarded s) (usize_to_u64 (len chunk))\<rparr>, True, h))
         | BoundedStorage bytes limit overflow \<Rightarrow>
             (let retained = min (len chunk) (saturating_sub limit (len bytes));
                  discarded = len chunk - retained;
                  s = s\<lparr>cap_discarded := saturating_add (cap_discarded s) (usize_to_u64 discarded)\<rparr>;
                  s = (if 0 < discarded \<and> overflow = FailClosed
                       then s\<lparr>cap_overflow := get_or_insert (cap_overflow s) limit\<rparr> else s)
              in if 0 < retained then
                   (let (reserved, h) = sys_reserve E retained h
                    in if reserved
                       then (s\<lparr>cap_storage :=
                               BoundedStorage (bytes @ take (unat retained) chunk) limit overflow\<rparr>,
                             False, h)
                       else (s\<lparr>cap_discarded :=
                               saturating_add (cap_discarded s) (usize_to_u64 retained)\<rparr>, True, h))
                 else (s, False, h)))
      in if allocation_failed
         then (s\<lparr>cap_failure := get_or_insert (cap_failure s) FailureAllocation,
                 cap_pipe := None\<rparr>, h)
         else (s, h))"

fun pump :: "os_env \<Rightarrow> nat \<Rightarrow> capture_stream \<Rightarrow> history \<Rightarrow> capture_stream \<times> history" where
  "pump E 0 s h = (s, h)"
| "pump E (Suc chunk_budget) s h =
     (case cap_pipe s of
        None \<Rightarrow> (s, h)
      | Some p \<Rightarrow>
          (case sys_read E p read_chunk h of
             (Ok chunk, h) \<Rightarrow>
               (if chunk = [] then (s\<lparr>cap_eof := True, cap_pipe := None\<rparr>, h)
                else (case retain E chunk s h of (s, h) \<Rightarrow> pump E chunk_budget s h))
           | (Err e, h) \<Rightarrow>
               (if io_kind e = Interrupted then pump E chunk_budget s h
                else if io_kind e = WouldBlock then (s, h)
                else (record_failure e s, h))))"

definition stream_failed :: "capture_stream \<Rightarrow> bool" where
  "stream_failed s \<longleftrightarrow> cap_failure s \<noteq> None"

definition stream_overflow :: "capture_stream \<Rightarrow> usize option" where
  "stream_overflow s = cap_overflow s"

definition terminal :: "capture_stream \<Rightarrow> bool" where
  "terminal s \<longleftrightarrow> cap_redirected s \<or> cap_eof s \<or> cap_failure s \<noteq> None"

definition stored :: "capture_stream \<Rightarrow> byte list" where
  "stored s = (case cap_storage s of BoundedStorage bytes _ _ \<Rightarrow> bytes | UnboundedStorage bytes \<Rightarrow> bytes)"

definition into_report :: "capture_stream \<Rightarrow> capture_report" where
  "into_report s =
     \<lparr>report_stream = cap_name s,
      captured =
        (if cap_redirected s then redirected_stream
         else if cap_eof s then settled (stored s) (cap_discarded s)
         else incomplete (stored s) (cap_discarded s)),
      report_failure = cap_failure s\<rparr>"

section \<open>The specification of a capture\<close>

text \<open>What a policy keeps of the bytes a pipe delivered, and when it has overflowed.\<close>

fun retained_by :: "capture_policy \<Rightarrow> byte list \<Rightarrow> byte list" where
  "retained_by (Bounded limit _) bs = take (unat limit) bs"
| "retained_by (UnboundedCapture _) bs = bs"

fun overflow_of :: "capture_policy \<Rightarrow> nat \<Rightarrow> usize option" where
  "overflow_of (Bounded limit FailClosed) n = (if unat limit < n then Some limit else None)"
| "overflow_of _ n = None"

fun storage_for :: "capture_policy \<Rightarrow> byte list \<Rightarrow> capture_storage" where
  "storage_for (Bounded limit overflow) bs = BoundedStorage bs limit overflow"
| "storage_for (UnboundedCapture _) bs = UnboundedStorage bs"

definition u64_max :: nat where "u64_max = 2 ^ 64 - 1"

text \<open>The accounting part: what was kept of the first \<open>bs\<close>, and what is counted as discarded.\<close>

definition accounts :: "capture_policy \<Rightarrow> capture_stream \<Rightarrow> byte list \<Rightarrow> bool" where
  "accounts policy s bs \<longleftrightarrow>
     cap_storage s = storage_for policy (stored s) \<and>
     prefix (stored s) (retained_by policy bs) \<and>
     (cap_failure s \<noteq> Some FailureAllocation \<longrightarrow> stored s = retained_by policy bs) \<and>
     unat (cap_discarded s) = min u64_max (length bs - length (stored s)) \<and>
     cap_overflow s = overflow_of policy (length bs)"

text \<open>The lifecycle part: an open pipe, or exactly why there is none.\<close>

definition captures :: "capture_policy \<Rightarrow> pipe \<Rightarrow> capture_stream \<Rightarrow> history \<Rightarrow> bool" where
  "captures policy p s h \<longleftrightarrow>
     accounts policy s (bytes_read p h) \<and>
     (cap_eof s \<longleftrightarrow> eof_seen p h) \<and>
     cap_pipe s = (if terminal s then None else Some p) \<and>
     (cap_failure s \<noteq> None \<longrightarrow> \<not> cap_eof s) \<and>
     (cap_redirected s \<longrightarrow> cap_failure s = None \<and> \<not> cap_eof s \<and> read_count p h = 0)"

lemma stored_storage_for:
  "cap_storage s = storage_for policy bs \<Longrightarrow> stored s = bs"
  by (cases policy) (auto simp: stored_def)

lemma stored_update [simp]:
  "stored (s\<lparr>cap_discarded := d\<rparr>) = stored s"
  "stored (s\<lparr>cap_overflow := ov\<rparr>) = stored s"
  "stored (s\<lparr>cap_failure := f\<rparr>) = stored s"
  "stored (s\<lparr>cap_pipe := p\<rparr>) = stored s"
  "stored (s\<lparr>cap_eof := b\<rparr>) = stored s"
  by (simp_all add: stored_def)

lemma accounts_frame [simp]:
  "accounts policy (s\<lparr>cap_pipe := p\<rparr>) bs = accounts policy s bs"
  "accounts policy (s\<lparr>cap_eof := b\<rparr>) bs = accounts policy s bs"
  by (simp_all add: accounts_def)

lemma accounts_length: "accounts policy s bs \<Longrightarrow> length (stored s) \<le> length (retained_by policy bs)"
  by (simp add: accounts_def prefix_length_le)

lemma retained_by_prefix: "prefix (retained_by policy bs) bs"
  by (cases policy) (simp_all add: take_is_prefix)

lemma captures_open:
  assumes "captures policy p s h" and "cap_pipe s = Some q"
  shows "q = p" "cap_failure s = None" "\<not> cap_eof s" "\<not> cap_redirected s"
  using assms by (auto simp: captures_def terminal_def split: if_splits)

lemma captures_closed: "captures policy p s h \<Longrightarrow> cap_pipe s = None \<longleftrightarrow> terminal s"
  by (auto simp: captures_def)

lemma captures_prefix: "captures policy p s h \<Longrightarrow> prefix (stored s) (bytes_read p h)"
  unfolding captures_def accounts_def by (meson prefix_order.trans retained_by_prefix)

section \<open>Retaining a chunk\<close>

lemma retain_unbounded:
  assumes acc: "accounts (UnboundedCapture r) s bs" and nofail: "cap_failure s = None"
    and small: "length chunk < 2 ^ 64"
  shows "accounts (UnboundedCapture r) (fst (retain E chunk s h)) (bs @ chunk)"
proof -
  from acc nofail have st: "cap_storage s = UnboundedStorage bs" and ov: "cap_overflow s = None"
    and zero: "unat (cap_discarded s) = 0"
    by (auto simp: accounts_def)
  show ?thesis
    using st ov zero nofail small
    by (simp add: retain_def sys_reserve_def Let_def accounts_def stored_def usize_to_u64_def
        unat_saturating_add unat_len u64_max_def)
qed

text \<open>The word arithmetic of the bounded case, on lengths.\<close>

lemma retained_count:
  assumes "length chunk < 2 ^ 64" and "length kept \<le> unat limit"
  shows "unat (min (len chunk) (saturating_sub limit (len kept)))
           = min (length chunk) (unat limit - length kept)"
    and "unat (len chunk - min (len chunk) (saturating_sub limit (len kept)))
           = length chunk - min (length chunk) (unat limit - length kept)"
proof -
  have "length kept < 2 ^ 64"
    using assms(2) unat_u64 [of limit] by simp
  then have sub: "unat (saturating_sub limit (len kept)) = unat limit - length kept"
    by (simp add: unat_saturating_sub unat_len)
  have min: "unat (min a b) = min (unat a) (unat b)" for a b :: usize
    by (simp add: min_def word_le_nat_alt)
  show one: "unat (min (len chunk) (saturating_sub limit (len kept)))
           = min (length chunk) (unat limit - length kept)"
    by (simp add: min sub unat_len [OF assms(1)])
  have "min (len chunk) (saturating_sub limit (len kept)) \<le> len chunk"
    by simp
  then show "unat (len chunk - min (len chunk) (saturating_sub limit (len kept)))
           = length chunk - min (length chunk) (unat limit - length kept)"
    by (simp only: unat_sub one unat_len [OF assms(1)])
qed

lemma take_limit_append:
  "take l bs @ take (min (length chunk) (l - min l (length bs))) chunk = take l (bs @ chunk)"
  for l :: nat
proof -
  have "take (min (length chunk) m) chunk = take m chunk" for m
    by (simp add: min_def)
  then show ?thesis by (cases "length bs \<le> l") simp_all
qed

lemma discarded_sum:
  "k \<le> b \<Longrightarrow> n \<le> c \<Longrightarrow> min m (min m (b - k) + (c - n)) = min m (b + c - (k + n))"
  for b c k m n :: nat
  by arith

lemma retain_bounded:
  assumes acc: "accounts (Bounded limit ov) s bs" and nofail: "cap_failure s = None"
    and small: "length chunk < 2 ^ 64"
  shows "accounts (Bounded limit ov) (fst (retain E chunk s h)) (bs @ chunk)"
proof -
  define kept where "kept = take (unat limit) bs"
  define n where "n = min (length chunk) (unat limit - length kept)"
  from acc nofail have st: "cap_storage s = BoundedStorage kept limit ov"
    and over: "cap_overflow s = overflow_of (Bounded limit ov) (length bs)"
    and disc: "unat (cap_discarded s) = min u64_max (length bs - length kept)"
    by (auto simp: accounts_def kept_def)
  have fits: "length kept \<le> unat limit" by (simp add: kept_def)
  note counts = retained_count [OF small fits, folded n_def]
  have take_kept: "kept @ take n chunk = take (unat limit) (bs @ chunk)"
    unfolding kept_def n_def
    using take_limit_append [of "unat limit" bs chunk] by (simp add: min.commute)
  have over': "(if n < length chunk \<and> ov = FailClosed
      then get_or_insert (cap_overflow s) limit else cap_overflow s)
      = overflow_of (Bounded limit ov) (length (bs @ chunk))"
    unfolding over n_def kept_def by (cases ov) (auto simp: get_or_insert_def)
  have pos: "0 < min (len chunk) (saturating_sub limit (len kept)) \<longleftrightarrow> 0 < n"
    "0 < len chunk - min (len chunk) (saturating_sub limit (len kept)) \<longleftrightarrow> n < length chunk"
    using counts by (auto simp: word_less_nat_alt)
  have n_le: "n \<le> length chunk" "length kept \<le> length bs"
    by (simp_all add: n_def kept_def)
  have total: "min u64_max (unat (cap_discarded s) + (length chunk - n))
      = min u64_max (length (bs @ chunk) - (length kept + n))"
    using discarded_sum [OF n_le(2) n_le(1), of u64_max] by (simp add: disc)
  have pre: "prefix kept (take (unat limit) (bs @ chunk))"
    unfolding take_kept [symmetric] by (rule prefixI) (rule refl)
  define r where "r = min (len chunk) (saturating_sub limit (len kept))"
  define d where "d = saturating_add (cap_discarded s) (len chunk - r)"
  define ovf where
    "ovf = (if n < length chunk \<and> ov = FailClosed
      then get_or_insert (cap_overflow s) limit else cap_overflow s)"
  have d: "unat d = min u64_max (length (bs @ chunk) - (length kept + n))"
    using total counts by (simp add: d_def r_def unat_saturating_add u64_max_def)
  show ?thesis
  proof (cases "0 < n \<and> \<not> on_reserve E h r")
    case True
    then have "fst (retain E chunk s h) =
        s\<lparr>cap_discarded := saturating_add d r, cap_overflow := ovf,
          cap_failure := Some FailureAllocation, cap_pipe := None\<rparr>"
      using pos nofail st
      by (simp add: retain_def sys_reserve_def Let_def usize_to_u64_def r_def d_def ovf_def)
    moreover have "unat (saturating_add d r) = min u64_max (length (bs @ chunk) - length kept)"
      using n_le counts(1) by (simp add: unat_saturating_add d r_def u64_max_def)
    moreover have "ovf = overflow_of (Bounded limit ov) (length (bs @ chunk))"
      using over' by (simp only: ovf_def)
    ultimately show ?thesis
      using pre st by (simp add: accounts_def stored_def)
  next
    case False
    have stay: "s\<lparr>cap_discarded := d, cap_overflow := ovf\<rparr> =
        s\<lparr>cap_discarded := d, cap_overflow := ovf, cap_storage := BoundedStorage kept limit ov\<rparr>"
      using st by (cases s) simp
    have "fst (retain E chunk s h) =
        s\<lparr>cap_discarded := d, cap_overflow := ovf,
          cap_storage := BoundedStorage (kept @ take n chunk) limit ov\<rparr>"
    proof (cases "n = 0")
      case True
      then have "fst (retain E chunk s h) = s\<lparr>cap_discarded := d, cap_overflow := ovf\<rparr>"
        using pos st by (simp add: retain_def Let_def usize_to_u64_def r_def d_def ovf_def
            del: min_less_iff_conj)
      with True stay show ?thesis by simp
    next
      case positive: False
      with False have "on_reserve E h r" by simp
      with positive show ?thesis
        using pos st counts by (simp add: retain_def sys_reserve_def Let_def usize_to_u64_def
            r_def d_def ovf_def del: min_less_iff_conj)
    qed
    moreover have "ovf = overflow_of (Bounded limit ov) (length (bs @ chunk))"
      using over' by (simp only: ovf_def)
    ultimately show ?thesis
      using st d n_le
      by (simp add: accounts_def stored_def take_kept [symmetric] min_absorb2 del: take_append)
  qed
qed

lemma retain_accounts:
  assumes "accounts policy s bs" and "cap_failure s = None" and "length chunk < 2 ^ 64"
  shows "accounts policy (fst (retain E chunk s h)) (bs @ chunk)"
  using assms by (cases policy) (auto intro: retain_bounded retain_unbounded)

text \<open>What retaining leaves alone, and the only way it ends a capture.\<close>

lemma retain_frame [stream_frame]:
  "cap_name (fst (retain E chunk s h)) = cap_name s"
  "cap_eof (fst (retain E chunk s h)) = cap_eof s"
  "cap_redirected (fst (retain E chunk s h)) = cap_redirected s"
  by (auto simp: retain_def sys_reserve_def Let_def split: capture_storage.split)

lemma retain_pipe:
  assumes "cap_failure s = None"
  shows "cap_failure (fst (retain E chunk s h)) = None \<and> cap_pipe (fst (retain E chunk s h)) = cap_pipe s \<or>
    cap_failure (fst (retain E chunk s h)) = Some FailureAllocation \<and> cap_pipe (fst (retain E chunk s h)) = None"
  using assms by (auto simp: retain_def sys_reserve_def Let_def split: capture_storage.split)

fun is_reserve :: "event \<Rightarrow> bool" where
  "is_reserve (EvReserve _ _) \<longleftrightarrow> True"
| "is_reserve _ \<longleftrightarrow> False"

lemma is_reserve_quiet [simp]:
  "is_reserve e \<Longrightarrow> \<not> is_read p e" "is_reserve e \<Longrightarrow> \<not> touches_leader e"
  by (cases e; simp)+

lemma retain_history: "extends is_reserve h (snd (retain E chunk s h))"
  by (auto simp: retain_def sys_reserve_def Let_def split: capture_storage.split)

lemma retain_views:
  "bytes_read p (snd (retain E chunk s h)) = bytes_read p h"
  "eof_seen p (snd (retain E chunk s h)) = eof_seen p h"
  "read_count p (snd (retain E chunk s h)) = read_count p h"
  by (rule extends_unread [OF retain_history]; simp)+

section \<open>Starting, pumping and failing keep the specification\<close>

lemma retained_by_Nil [simp]: "retained_by policy [] = []"
  by (cases policy) simp_all

lemma overflow_of_0 [simp]: "overflow_of policy 0 = None"
  by (cases "(policy, 0::nat)" rule: overflow_of.cases) auto

lemma storage_new: "cap_storage (stream_new name pipe policy) = storage_for policy []"
  by (cases policy) (simp_all add: stream_new_def)

lemma captures_new:
  assumes "read_count p h = 0" and "bytes_read p h = []" and "\<not> eof_seen p h"
    and "pipe = None \<or> pipe = Some p"
  shows "captures policy p (stream_new name pipe policy) h"
proof -
  have "stored (stream_new name pipe policy) = []"
    by (simp add: stored_storage_for [OF storage_new])
  then show ?thesis
    using assms
    by (auto simp: captures_def accounts_def storage_new terminal_def) (auto simp: stream_new_def)
qed

lemma record_failure_captures:
  assumes "captures policy p s h" and "cap_pipe s = Some p"
  shows "captures policy p (record_failure e s) h"
  using assms
  by (auto simp: captures_def accounts_def record_failure_def terminal_def)

lemma captures_cong:
  "captures policy p s h \<Longrightarrow> bytes_read p h' = bytes_read p h \<Longrightarrow> eof_seen p h' = eof_seen p h
    \<Longrightarrow> read_count p h' = read_count p h \<Longrightarrow> captures policy p s h'"
  unfolding captures_def by metis

lemma captures_extends:
  "captures policy p s h \<Longrightarrow> extends P h h' \<Longrightarrow> (\<And>e. P e \<Longrightarrow> \<not> is_read p e) \<Longrightarrow> captures policy p s h'"
  by (erule captures_cong) (auto dest: extends_unread)

fun is_flag_call :: "event \<Rightarrow> bool" where
  "is_flag_call (EvGetFlags _ _) \<longleftrightarrow> True"
| "is_flag_call (EvSetFlags _ _ _) \<longleftrightarrow> True"
| "is_flag_call _ \<longleftrightarrow> False"

lemma is_flag_call_quiet [simp]:
  "is_flag_call e \<Longrightarrow> \<not> is_read p e" "is_flag_call e \<Longrightarrow> \<not> touches_leader e"
  by (cases e; simp)+

lemma make_nonblocking_history: "extends is_flag_call h (snd (make_nonblocking E s h))"
  by (auto simp: make_nonblocking_def sys_getfl_def sys_setfl_def Let_def extends_def
      split: option.split sum.split)

lemma make_nonblocking_cases:
  "fst (make_nonblocking E s h) = s \<or> (\<exists>e. cap_pipe s \<noteq> None \<and> fst (make_nonblocking E s h) = record_failure e s)"
  by (auto simp: make_nonblocking_def sys_getfl_def sys_setfl_def Let_def
      split: option.split sum.split)

lemma make_nonblocking_captures:
  assumes "captures policy p s h"
  shows "captures policy p (fst (make_nonblocking E s h)) (snd (make_nonblocking E s h))"
proof -
  have same: "captures policy p s (snd (make_nonblocking E s h))"
    by (rule captures_extends [OF assms make_nonblocking_history]) simp
  moreover have "cap_pipe s \<noteq> None \<Longrightarrow> cap_pipe s = Some p"
    using assms by (auto simp: captures_def)
  ultimately show ?thesis
    using make_nonblocking_cases [of E s h] record_failure_captures by metis
qed

text \<open>One successful read that delivers bytes.\<close>

lemma retain_captures:
  assumes cap: "captures policy p s h" and live_pipe: "cap_pipe s = Some p"
    and chunk: "chunk \<noteq> []" "length chunk < 2 ^ 64"
    and h': "h' = h @ [EvRead p n (Ok chunk)]"
  shows "captures policy p (fst (retain E chunk s h')) (snd (retain E chunk s h'))"
proof -
  note live = captures_open(2-4) [OF cap live_pipe]
  with cap have acc: "accounts policy s (bytes_read p h)" and eof: "\<not> eof_seen p h"
    by (auto simp: captures_def)
  have "accounts policy (fst (retain E chunk s h')) (bytes_read p h')"
    using retain_accounts [OF acc live(1) chunk(2)] by (simp add: h' view_simps)
  moreover have "\<not> eof_seen p h'"
    using chunk(1) eof by (simp add: h' view_simps)
  ultimately show ?thesis
    using retain_pipe [OF live(1), of E chunk h'] live_pipe live
    by (auto simp: captures_def retain_views terminal_def stream_frame)
qed

lemma read_chunk_small:
  "length (take read_chunk bs) < 2 ^ 64"
  by (simp add: read_chunk_def)

lemma pump_captures:
  "captures policy p s h \<Longrightarrow>
   captures policy p (fst (pump E n s h)) (snd (pump E n s h))"
proof (induction n arbitrary: s h)
  case 0
  then show ?case by simp
next
  case (Suc n)
  show ?case
  proof (cases "cap_pipe s")
    case None
    with Suc.prems show ?thesis by simp
  next
    case (Some q)
    note live = captures_open [OF Suc.prems Some]
    show ?thesis
    proof (cases "on_read E h p read_chunk")
      case (Inl e)
      have same: "captures policy p s (h @ [EvRead p read_chunk (Err e)])"
        using Suc.prems live by (simp add: captures_def view_simps)
      show ?thesis
        using Some live(1) Inl Suc.IH [OF same] same record_failure_captures [OF same, of e]
        by (simp add: sys_read_def Let_def)
    next
      case (Inr bs)
      show ?thesis
      proof (cases "take read_chunk bs = []")
        case True
        then show ?thesis
          using Some Inr Suc.prems live
          by (auto simp: sys_read_def Let_def captures_def view_simps terminal_def accounts_def)
      next
        case False
        let ?h = "h @ [EvRead p read_chunk (Ok (take read_chunk bs))]"
        obtain s' h' where r: "retain E (take read_chunk bs) s ?h = (s', h')"
          by fastforce
        have "captures policy p s' h'"
          using retain_captures [OF Suc.prems _ False read_chunk_small refl, of E] Some live(1) r
          by (metis fst_conv snd_conv)
        then show ?thesis
          using Some live(1) Inr False Suc.IH r by (simp add: sys_read_def Let_def)
      qed
    qed
  qed
qed

section \<open>What a pumping turn costs and touches\<close>

definition pump_event :: "pipe \<Rightarrow> event \<Rightarrow> bool" where
  "pump_event p e \<longleftrightarrow> is_read p e \<or> is_reserve e"

lemma is_read_leader [simp]: "is_read p e \<Longrightarrow> \<not> touches_leader e"
  by (cases e) auto

lemma pump_event_quiet:
  "pump_event p e \<Longrightarrow> \<not> touches_leader e"
  "pump_event p e \<Longrightarrow> p \<noteq> q \<Longrightarrow> \<not> is_read q e"
  by (cases e; auto simp: pump_event_def)+

lemma pump_history: "cap_pipe s \<in> {None, Some p} \<Longrightarrow> extends (pump_event p) h (snd (pump E n s h))"
proof (induction n arbitrary: s h)
  case 0
  then show ?case by simp
next
  case (Suc n)
  show ?case
  proof (cases "cap_pipe s")
    case None
    then show ?thesis by simp
  next
    case (Some q)
    with Suc.prems have q: "q = p" by simp
    have one: "pump_event p (EvRead p read_chunk r)" for r
      by (simp add: pump_event_def)
    show ?thesis
    proof (cases "on_read E h p read_chunk")
      case (Inl e)
      then show ?thesis
        using Some q one Suc.IH [OF Suc.prems, of "h @ [EvRead p read_chunk (Err e)]"]
        by (auto simp: sys_read_def Let_def intro: extends_tail)
    next
      case (Inr bs)
      let ?h = "h @ [EvRead p read_chunk (Ok (take read_chunk bs))]"
      obtain s' h' where r: "retain E (take read_chunk bs) s ?h = (s', h')" by fastforce
      have "extends (pump_event p) ?h h'"
        using retain_history [of ?h E "take read_chunk bs" s] r
        by (auto simp: pump_event_def elim: extends_mono)
      moreover have "cap_pipe s' \<in> {None, Some p}"
        using Some q r
        by (auto simp: retain_def sys_reserve_def Let_def split: capture_storage.splits if_splits)
      ultimately have "extends (pump_event p) h (snd (pump E n s' h'))"
        using Suc.IH [of s' h'] one by (blast intro: extends_tail extends_trans)
      moreover have "extends (pump_event p) h ?h"
        using one by simp
      ultimately show ?thesis
        using Some q Inr r by (simp add: sys_read_def Let_def)
    qed
  qed
qed

text \<open>A turn makes at most its budget of reads, so it takes at most 64 KiB off a pipe.\<close>

lemma pump_budget:
  "captures policy p s h \<Longrightarrow>
   read_count p (snd (pump E n s h)) \<le> read_count p h + n \<and>
   length (bytes_read p (snd (pump E n s h))) \<le> length (bytes_read p h) + n * read_chunk"
proof (induction n arbitrary: s h)
  case 0
  then show ?case by simp
next
  case (Suc n)
  show ?case
  proof (cases "cap_pipe s")
    case None
    then show ?thesis by simp
  next
    case (Some q)
    note live = captures_open [OF Suc.prems Some]
    show ?thesis
    proof (cases "on_read E h p read_chunk")
      case (Inl e)
      have same: "captures policy p s (h @ [EvRead p read_chunk (Err e)])"
        using Suc.prems live by (simp add: captures_def view_simps)
      show ?thesis
        using Some live(1) Inl Suc.IH [OF same] by (simp add: sys_read_def Let_def view_simps)
    next
      case (Inr bs)
      show ?thesis
      proof (cases "take read_chunk bs = []")
        case True
        then show ?thesis
          using Some live(1) Inr by (simp add: sys_read_def Let_def view_simps)
      next
        case False
        let ?h = "h @ [EvRead p read_chunk (Ok (take read_chunk bs))]"
        obtain s' h' where r: "retain E (take read_chunk bs) s ?h = (s', h')"
          by fastforce
        have cap': "captures policy p s' h'"
          using retain_captures [OF Suc.prems _ False read_chunk_small refl, of E] Some live(1) r
          by (metis fst_conv snd_conv)
        have "read_count p h' = read_count p h + 1"
          and "bytes_read p h' = bytes_read p h @ take read_chunk bs"
          using retain_views [of p E "take read_chunk bs" s ?h] r by (simp_all add: view_simps)
        then show ?thesis
          using Some live(1) Inr False Suc.IH [OF cap'] r
          by (simp add: sys_read_def Let_def) arith
      qed
    qed
  qed
qed

lemma record_failure_terminal: "terminal (record_failure e s)"
  by (simp add: terminal_def record_failure_def)

lemma pump_terminal: "cap_pipe s = None \<Longrightarrow> pump E n s h = (s, h)"
  by (cases n) simp_all

lemma pump_name: "cap_name (fst (pump E n s h)) = cap_name s"
  by (induction n arbitrary: s h)
    (auto simp: record_failure_def stream_frame split: option.split sum.split prod.split,
      metis fst_conv retain_frame(1))

section \<open>Reports\<close>

lemma retained_by_bound: "length (retained_by (Bounded limit ov) bs) \<le> unat limit"
  by simp

text \<open>
  What a reader may conclude from a report: it names its stream, its bytes are a prefix of
  what the pipe delivered and within the bound; completeness and the discard count are
  truthful; and an open pipe is never reported as finished.
\<close>

definition report_truthful :: "capture_policy \<Rightarrow> pipe \<Rightarrow> capture_report \<Rightarrow> history \<Rightarrow> bool" where
  "report_truthful policy p rep h \<longleftrightarrow>
     prefix (cs_bytes (captured rep)) (bytes_read p h) \<and>
     prefix (cs_bytes (captured rep)) (retained_by policy (bytes_read p h)) \<and>
     (case completeness (captured rep) of
        Complete \<Rightarrow> eof_seen p h \<and> cs_bytes (captured rep) = bytes_read p h \<and> report_failure rep = None
      | Truncated d \<Rightarrow>
          eof_seen p h \<and> report_failure rep = None \<and>
          cs_bytes (captured rep) = retained_by policy (bytes_read p h) \<and>
          unat d = min u64_max (length (bytes_read p h) - length (cs_bytes (captured rep))) \<and> 0 < unat d
      | Incomplete d \<Rightarrow>
          \<not> eof_seen p h \<and>
          unat d = min u64_max (length (bytes_read p h) - length (cs_bytes (captured rep)))
      | Redirected \<Rightarrow> bytes_read p h = [] \<and> \<not> eof_seen p h \<and> report_failure rep = None
      | CompletenessUnknown \<Rightarrow> False)"

lemma unread_bytes: "read_count p h = 0 \<Longrightarrow> bytes_read p h = []"
proof (induction h rule: rev_induct)
  case (snoc e h)
  then have "\<not> is_read p e" "read_count p h = 0" by (auto simp: view_simps split: if_splits)
  with snoc.IH show ?case by (simp add: not_read_views)
qed simp

lemma into_report_truthful:
  assumes cap: "captures policy p s h"
  shows "report_truthful policy p (into_report s) h"
proof -
  from cap have acc: "prefix (stored s) (retained_by policy (bytes_read p h))"
    and full: "cap_failure s \<noteq> Some FailureAllocation \<longrightarrow> stored s = retained_by policy (bytes_read p h)"
    and disc: "unat (cap_discarded s) = min u64_max (length (bytes_read p h) - length (stored s))"
    and eof: "cap_eof s \<longleftrightarrow> eof_seen p h"
    and fail: "cap_failure s \<noteq> None \<longrightarrow> \<not> cap_eof s"
    and redir: "cap_redirected s \<longrightarrow> cap_failure s = None \<and> \<not> cap_eof s \<and> read_count p h = 0"
    by (auto simp: captures_def accounts_def)
  have pre: "prefix (stored s) (bytes_read p h)" by (rule captures_prefix [OF cap])
  have max: "0 < u64_max" by (simp add: u64_max_def)
  have whole: "stored s = bytes_read p h" if "cap_discarded s = 0"
  proof -
    have "length (bytes_read p h) \<le> length (stored s)"
      using disc that max by (simp add: min_def split: if_splits)
    then show ?thesis using pre by (auto simp: prefix_def)
  qed
  have pos: "0 < unat (cap_discarded s)" if "cap_discarded s \<noteq> 0"
    using that by (metis bot_nat_0.not_eq_extremum unat_eq_zero)
  show ?thesis
    using acc full disc eof fail redir pre whole pos unread_bytes
    by (auto simp: report_truthful_def into_report_def redirected_stream_def settled_def incomplete_def)
qed

lemma into_report_simps [simp]:
  "report_stream (into_report s) = cap_name s"
  "report_failure (into_report s) = cap_failure s"
  by (simp_all add: into_report_def)

lemma report_within_limit:
  assumes "report_truthful (Bounded limit ov) p rep h"
  shows "length (cs_bytes (captured rep)) \<le> unat limit"
  using assms prefix_length_le retained_by_bound
  by (meson report_truthful_def le_trans)

section \<open>The interface the supervisor pumps through\<close>

text \<open>
  Two capture sinks share a history: each is specified against its own pipe, a turn of one
  makes only calls the other's specification does not look at.
\<close>

locale capture_sink =
  fixes turn :: "'s \<Rightarrow> history \<Rightarrow> 's \<times> history"
    and sink_spec :: "'s \<Rightarrow> history \<Rightarrow> bool"
    and sink_event :: "event \<Rightarrow> bool"
    and observes :: "event \<Rightarrow> bool"
  assumes turn_spec: "sink_spec s h \<Longrightarrow> sink_spec (fst (turn s h)) (snd (turn s h))"
    and turn_history: "sink_spec s h \<Longrightarrow> extends sink_event h (snd (turn s h))"
    and undisturbed: "sink_spec s h \<Longrightarrow> extends P h h' \<Longrightarrow> (\<And>e. P e \<Longrightarrow> \<not> observes e) \<Longrightarrow> sink_spec s h'"
    and event_quiet: "sink_event e \<Longrightarrow> \<not> touches_leader e"
begin

lemma turn_phase:
  "sink_spec s h \<Longrightarrow> phase_of h \<noteq> NotSpawned \<Longrightarrow> phase_of (snd (turn s h)) = phase_of h"
  using turn_history event_quiet by (rule extends_phase)

lemma unobserved_call: "sink_spec s h \<Longrightarrow> \<not> observes e \<Longrightarrow> sink_spec s (h @ [e])"
  by (erule undisturbed [where P = "\<lambda>e. \<not> observes e"]) auto

end

locale paired_sinks =
  out: capture_sink turn_out spec_out event_out observes_out +
  err: capture_sink turn_err spec_err event_err observes_err
  for turn_out :: "'s \<Rightarrow> history \<Rightarrow> 's \<times> history" and spec_out event_out observes_out
    and turn_err :: "'t \<Rightarrow> history \<Rightarrow> 't \<times> history" and spec_err event_err observes_err +
  assumes out_blind: "event_err e \<Longrightarrow> \<not> observes_out e"
    and err_blind: "event_out e \<Longrightarrow> \<not> observes_err e"
begin

lemma turn_out_keeps:
  assumes "spec_out a h" and "spec_err b h"
  shows "spec_out (fst (turn_out a h)) (snd (turn_out a h))" "spec_err b (snd (turn_out a h))"
  using assms out.turn_spec err.undisturbed [OF assms(2) out.turn_history [OF assms(1)]] err_blind
  by auto

lemma turn_err_keeps:
  assumes "spec_out a h" and "spec_err b h"
  shows "spec_out a (snd (turn_err b h))" "spec_err (fst (turn_err b h)) (snd (turn_err b h))"
  using assms err.turn_spec out.undisturbed [OF assms(1) err.turn_history [OF assms(2)]] out_blind
  by auto

end

lemma captures_pipe: "captures policy p s h \<Longrightarrow> cap_pipe s \<in> {None, Some p}"
  by (auto simp: captures_def)

interpretation stream_turn: capture_sink "pump E n" "captures policy p" "pump_event p" "is_read p"
  for E n policy p
proof unfold_locales
  fix s h
  assume cap: "captures policy p s h"
  then show "captures policy p (fst (pump E n s h)) (snd (pump E n s h))"
    by (rule pump_captures)
  from captures_pipe [OF cap] show "extends (pump_event p) h (snd (pump E n s h))"
    by (rule pump_history)
  show "captures policy p s h'" if "extends P h h'" "\<And>e. P e \<Longrightarrow> \<not> is_read p e" for P h'
    using cap that by (rule captures_extends)
qed (rule pump_event_quiet(1))

interpretation stream_pair: paired_sinks
    "pump E n" "captures out_policy ChildStdout" "pump_event ChildStdout" "is_read ChildStdout"
    "pump E n" "captures err_policy ChildStderr" "pump_event ChildStderr" "is_read ChildStderr"
  for E n out_policy err_policy
  by unfold_locales (auto simp: pump_event_quiet(2))

end
