(* ===== verification/Outcome.thy ===== *)
theory Outcome
  imports Errors
begin

text \<open>
  From observations to a result (\<open>supervisor.rs\<close>): what the supervisor has observed, when that
  ends supervision, which observation is the primary outcome, and how a primary outcome and
  the evidence are classified for captured and for managed invocations.
\<close>

section \<open>Observations\<close>

record observations =
  cancelled :: bool
  deadline_elapsed :: bool
  leader_waitable :: bool
  observe_error :: "io_error option"
  reap_failures :: "failure_evidence list"

definition observations_default :: observations where
  "observations_default =
     \<lparr>cancelled = False, deadline_elapsed = False, leader_waitable = False,
      observe_error = None, reap_failures = []\<rparr>"

definition settlement_triggered :: "observations \<Rightarrow> bool \<Rightarrow> bool \<Rightarrow> bool" where
  "settlement_triggered obs overflow capture_failed \<longleftrightarrow>
     overflow \<or> cancelled obs \<or> deadline_elapsed obs \<or> capture_failed \<or>
     observe_error obs \<noteq> None \<or> leader_waitable obs"

section \<open>The primary outcome\<close>

datatype primary =
  PrimaryLimit stream_name usize
| PrimaryCancelled
| PrimaryDeadline
| PrimaryCaptureFailure
| PrimarySupervision io_error
| PrimaryExit

text \<open>The observation error is taken out of the observations when it is the outcome.\<close>

definition choose_primary ::
  "observations \<Rightarrow> usize option \<Rightarrow> usize option \<Rightarrow> primary \<times> observations" where
  "choose_primary obs stdout_overflow stderr_overflow =
     (case stdout_overflow of
        Some limit \<Rightarrow> (PrimaryLimit Stdout limit, obs)
      | None \<Rightarrow>
     (case stderr_overflow of
        Some limit \<Rightarrow> (PrimaryLimit Stderr limit, obs)
      | None \<Rightarrow>
          if cancelled obs then (PrimaryCancelled, obs)
          else if deadline_elapsed obs then (PrimaryDeadline, obs)
          else if observe_error obs = None then (PrimaryExit, obs)
          else (case observe_error obs of
                  Some e \<Rightarrow> (PrimarySupervision e, obs\<lparr>observe_error := None\<rparr>)
                | None \<Rightarrow> (PrimaryExit, obs))))"

text \<open>
  The documented precedence as a ranking of the outcomes a classification distinguishes, used
  to state that the most significant fact observed is the one reported.
\<close>

fun primary_rank :: "primary \<Rightarrow> nat" where
  "primary_rank (PrimaryLimit Stdout _) = 0"
| "primary_rank (PrimaryLimit Stderr _) = 1"
| "primary_rank PrimaryCancelled = 2"
| "primary_rank PrimaryDeadline = 3"
| "primary_rank PrimaryCaptureFailure = 4"
| "primary_rank (PrimarySupervision _) = 5"
| "primary_rank PrimaryExit = 6"

definition observed_outcomes ::
  "observations \<Rightarrow> usize option \<Rightarrow> usize option \<Rightarrow> bool \<Rightarrow> primary list" where
  "observed_outcomes obs stdout_overflow stderr_overflow capture_failed =
     (case stdout_overflow of Some l \<Rightarrow> [PrimaryLimit Stdout l] | None \<Rightarrow> []) @
     (case stderr_overflow of Some l \<Rightarrow> [PrimaryLimit Stderr l] | None \<Rightarrow> []) @
     (if cancelled obs then [PrimaryCancelled] else []) @
     (if deadline_elapsed obs then [PrimaryDeadline] else []) @
     (if capture_failed then [PrimaryCaptureFailure] else []) @
     (case observe_error obs of Some e \<Rightarrow> [PrimarySupervision e] | None \<Rightarrow> []) @
     [PrimaryExit]"

section \<open>Classification\<close>

definition classify_exit ::
  "label \<Rightarrow> lifecycle_evidence \<Rightarrow> epi_error + (exit_status \<times> lifecycle_evidence)" where
  "classify_exit program ev =
     (if (case cleanup ev of CleanupIncomplete _ \<Rightarrow> True | _ \<Rightarrow> False)
      then Err (CleanupIncompleteError program ev)
      else if cleanup ev = CleanupUnknown
      then Err (SupervisionFailed program (io_other ''cleanup outcome was not recovered'') ev)
      else if signal ev = SignalUnknown \<or> disposition (reap ev) = DispositionUnknown
      then Err (SupervisionFailed program (io_other ''signal or reap outcome was not recovered'') ev)
      else if (case signal ev of SignalFailed _ \<Rightarrow> True | _ \<Rightarrow> False) \<or>
              failures (reap ev) \<noteq> [] \<or> disposition (reap ev) = Unreaped
      then Err (LifecycleFailed program ev)
      else (case leader_status ev of
              Some status \<Rightarrow>
                if success status then Ok (status, ev) else Err (NonZeroExit program ev)
            | None \<Rightarrow>
                Err (SupervisionFailed program (io_other ''process leader had no reaped status'') ev)))"

definition capture_overrides :: "primary \<Rightarrow> primary" where
  "capture_overrides p =
     (case p of
        PrimaryLimit _ _ \<Rightarrow> p
      | PrimaryCancelled \<Rightarrow> p
      | PrimaryDeadline \<Rightarrow> p
      | _ \<Rightarrow> PrimaryCaptureFailure)"

definition classify ::
  "primary \<Rightarrow> label \<Rightarrow> duration option \<Rightarrow> lifecycle_evidence \<Rightarrow> epi_error + run_output" where
  "classify p program deadline ev =
     (let p = (if report_failure (le_stdout ev) \<noteq> None \<or> report_failure (le_stderr ev) \<noteq> None
               then capture_overrides p else p)
      in case p of
           PrimaryLimit stream limit \<Rightarrow> Err (CaptureLimitExceeded program stream limit ev)
         | PrimaryCancelled \<Rightarrow> Err (Cancelled program ev)
         | PrimaryDeadline \<Rightarrow>
             (case deadline of
                Some configured \<Rightarrow> Err (Timeout program configured ev)
              | None \<Rightarrow>
                  Err (SupervisionFailed program
                    (io_other ''deadline elapsed without a configured deadline'') ev))
         | PrimaryCaptureFailure \<Rightarrow> Err (CaptureFailed program ev)
         | PrimarySupervision source \<Rightarrow> Err (SupervisionFailed program source ev)
         | PrimaryExit \<Rightarrow>
             map_sum id (\<lambda>(status, ev). output_new status ev) (classify_exit program ev))"

definition classify_managed ::
  "primary \<Rightarrow> label \<Rightarrow> duration option \<Rightarrow> lifecycle_evidence \<Rightarrow> epi_error + managed_output" where
  "classify_managed p program deadline ev =
     (case p of
        PrimaryLimit _ _ \<Rightarrow> Err (CaptureFailed program ev)
      | PrimaryCaptureFailure \<Rightarrow> Err (CaptureFailed program ev)
      | PrimaryCancelled \<Rightarrow> Err (Cancelled program ev)
      | PrimaryDeadline \<Rightarrow>
          (case deadline of
             Some configured \<Rightarrow> Err (Timeout program configured ev)
           | None \<Rightarrow>
               Err (SupervisionFailed program
                 (io_other ''deadline elapsed without a configured deadline'') ev))
      | PrimarySupervision source \<Rightarrow> Err (SupervisionFailed program source ev)
      | PrimaryExit \<Rightarrow>
          map_sum id (\<lambda>(status, ev). managed_output_new status ev) (classify_exit program ev))"

section \<open>What classification guarantees\<close>

text \<open>The conditions under which an exit counts as settled.\<close>

definition settled_exit :: "lifecycle_evidence \<Rightarrow> bool" where
  "settled_exit ev \<longleftrightarrow>
     cleanup ev = CleanupComplete \<and> signal ev \<in> {Sent, AlreadyGone} \<and>
     disposition (reap ev) \<in> {Reaped, BackgroundReaper} \<and> failures (reap ev) = []"

lemma classify_exit_Ok:
  "classify_exit program ev = Ok (st, ev') \<longleftrightarrow>
     settled_exit ev \<and> leader_status ev = Some st \<and> success st \<and> ev' = ev"
  by (cases "cleanup ev"; cases "signal ev"; cases "disposition (reap ev)")
    (auto simp: classify_exit_def settled_exit_def split: option.splits if_splits)

lemma classify_exit_NonZero:
  "classify_exit program ev = Err (NonZeroExit program' ev') \<longleftrightarrow>
     settled_exit ev \<and> (\<exists>st. leader_status ev = Some st \<and> \<not> success st) \<and> program' = program \<and> ev' = ev"
  by (cases "cleanup ev"; cases "signal ev"; cases "disposition (reap ev)")
    (auto simp: classify_exit_def settled_exit_def split: option.splits if_splits)

lemma classify_exit_evidence:
  "classify_exit program ev = Err e \<Longrightarrow> error_evidence e = Some ev"
  by (auto simp: classify_exit_def split: if_splits option.splits)

text \<open>A classified exit, packed into an output by \<open>f\<close>.\<close>

lemma packed_exit_Ok:
  "map_sum id (\<lambda>(status, ev). f status ev) (classify_exit program ev) = Ok out \<longleftrightarrow>
     settled_exit ev \<and> (\<exists>st. leader_status ev = Some st \<and> success st \<and> out = f st ev)"
proof -
  have "map_sum id (\<lambda>(status, ev). f status ev) (classify_exit program ev) = Ok out \<longleftrightarrow>
      (\<exists>st ev'. classify_exit program ev = Ok (st, ev') \<and> out = f st ev')"
    by (cases "classify_exit program ev") auto
  then show ?thesis by (auto simp: classify_exit_Ok)
qed

lemma packed_exit_evidence:
  assumes "\<And>st ev. view (Ok (f st ev)) = Some ev" and "\<And>e. view (Err e) = error_evidence e"
  shows "view (map_sum id (\<lambda>(status, ev). f status ev) (classify_exit program ev)) = Some ev"
proof (cases "classify_exit program ev")
  case (Inl e)
  then show ?thesis using classify_exit_evidence [OF Inl] assms by simp
next
  case (Inr r)
  moreover obtain st ev' where "r = (st, ev')" by fastforce
  moreover have "ev' = ev" using calculation classify_exit_Ok by blast
  ultimately show ?thesis using assms by simp
qed

lemma classify_evidence: "run_evidence (classify p program deadline ev) = Some ev"
  using packed_exit_evidence [of run_evidence output_new program ev]
  by (auto simp: classify_def capture_overrides_def Let_def
      split: primary.split option.split)

lemma classify_managed_evidence: "managed_evidence (classify_managed p program deadline ev) = Some ev"
  using packed_exit_evidence [of managed_evidence managed_output_new program ev]
  by (auto simp: classify_managed_def split: primary.split option.split)

lemma classify_Ok:
  "classify p program deadline ev = Ok out \<longleftrightarrow>
     p = PrimaryExit \<and> first_capture_failure ev = None \<and> settled_exit ev \<and>
     (\<exists>st. leader_status ev = Some st \<and> success st \<and> out = output_new st ev)"
  using packed_exit_Ok [of output_new program ev out]
  by (auto simp: classify_def capture_overrides_def Let_def first_capture_failure_None
      split: primary.split option.split)

lemma classify_managed_Ok:
  "classify_managed p program deadline ev = Ok out \<longleftrightarrow>
     p = PrimaryExit \<and> settled_exit ev \<and>
     (\<exists>st. leader_status ev = Some st \<and> success st \<and> out = managed_output_new st ev)"
  using packed_exit_Ok [of managed_output_new program ev out]
  by (auto simp: classify_managed_def split: primary.split option.split)

lemma choose_primary_frame:
  "reap_failures (snd (choose_primary obs a b)) = reap_failures obs"
  by (auto simp: choose_primary_def split: option.split)

lemma choose_primary_deadline:
  "fst (choose_primary obs a b) = PrimaryDeadline \<Longrightarrow> deadline_elapsed obs"
  by (auto simp: choose_primary_def split: option.splits if_splits)

lemma choose_primary_Exit:
  "fst (choose_primary obs a b) = PrimaryExit \<longleftrightarrow>
     a = None \<and> b = None \<and> \<not> cancelled obs \<and> \<not> deadline_elapsed obs \<and> observe_error obs = None"
  by (auto simp: choose_primary_def split: option.splits)

lemma choose_primary_observed:
  "fst (choose_primary obs a b) \<in> set (observed_outcomes obs a b failed)"
  by (auto simp: choose_primary_def observed_outcomes_def split: option.split)

lemma choose_primary_least:
  "\<forall>q \<in> set (observed_outcomes obs a b False).
     primary_rank (fst (choose_primary obs a b)) \<le> primary_rank q"
  by (auto simp: choose_primary_def observed_outcomes_def split: option.split)

end
