(* ===== verification/Owned_Child.thy ===== *)
theory Owned_Child
  imports Outcome Lifecycle_Spec
begin

text \<open>
  Ownership of the process leader (\<open>OwnedChild\<close> in \<open>supervisor.rs\<close>): the child until it is
  reaped or handed to the background reaper, the process group it leads, and the endpoint of
  the reaper that was started before the spawn.
\<close>

section \<open>State and operations\<close>

datatype reaper_sender = ReaperSender

record owned_child =
  oc_child :: "child option"
  oc_pgid :: u32
  oc_reaper :: "reaper_sender option"

definition start_background_reaper ::
  "os_env \<Rightarrow> label \<Rightarrow> history \<Rightarrow> (epi_error + reaper_sender) \<times> history" where
  "start_background_reaper E program h =
     (case sys_thread E ''epitelesis-background-reaper'' h of
        (Err source, h) \<Rightarrow> (Err (ReaperStartFailed program source), h)
      | (Ok _, h) \<Rightarrow> (Ok ReaperSender, h))"

definition owned_new :: "child \<Rightarrow> reaper_sender \<Rightarrow> owned_child" where
  "owned_new c reaper = \<lparr>oc_child = Some c, oc_pgid = child_id c, oc_reaper = Some reaper\<rparr>"

definition owned_id :: "owned_child \<Rightarrow> u32" where
  "owned_id o' = (case oc_child o' of None \<Rightarrow> 0 | Some c \<Rightarrow> child_id c)"

definition has_child :: "owned_child \<Rightarrow> bool" where
  "has_child o' \<longleftrightarrow> oc_child o' \<noteq> None"

text \<open>\<open>child_mut().and_then(|child| child.stdin.take())\<close> and its two siblings.\<close>

definition take_stdin :: "owned_child \<Rightarrow> pipe option \<times> owned_child" where
  "take_stdin o' =
     (case oc_child o' of
        None \<Rightarrow> (None, o')
      | Some c \<Rightarrow> (child_stdin c, o'\<lparr>oc_child := Some (c\<lparr>child_stdin := None\<rparr>)\<rparr>))"

definition take_stdout :: "owned_child \<Rightarrow> pipe option \<times> owned_child" where
  "take_stdout o' =
     (case oc_child o' of
        None \<Rightarrow> (None, o')
      | Some c \<Rightarrow> (child_stdout c, o'\<lparr>oc_child := Some (c\<lparr>child_stdout := None\<rparr>)\<rparr>))"

definition take_stderr :: "owned_child \<Rightarrow> pipe option \<times> owned_child" where
  "take_stderr o' =
     (case oc_child o' of
        None \<Rightarrow> (None, o')
      | Some c \<Rightarrow> (child_stderr c, o'\<lparr>oc_child := Some (c\<lparr>child_stderr := None\<rparr>)\<rparr>))"

definition owned_signal_group :: "os_env \<Rightarrow> owned_child \<Rightarrow> history \<Rightarrow> (io_error + unit) \<times> history" where
  "owned_signal_group E o' h =
     (case sys_kill E (oc_pgid o') h of (r, h) \<Rightarrow> (map_sum errno_to_io id r, h))"

definition owned_leader_waitable :: "os_env \<Rightarrow> owned_child \<Rightarrow> history \<Rightarrow> (io_error + bool) \<times> history" where
  "owned_leader_waitable E o' h =
     (if oc_child o' = None then (Ok True, h)
      else (case sys_waitid E (oc_pgid o') h of
              (r, h) \<Rightarrow> (map_sum errno_to_io (\<lambda>status. status \<noteq> None) r, h)))"

definition reap_waitable ::
  "os_env \<Rightarrow> owned_child \<Rightarrow> history \<Rightarrow> (io_error + exit_status) \<times> owned_child \<times> history" where
  "reap_waitable E o' h =
     (case oc_child o' of
        Some c \<Rightarrow>
          (case sys_wait E (child_id c) h of
             (Err e, h) \<Rightarrow> (Err e, o', h)
           | (Ok status, h) \<Rightarrow> (Ok status, o'\<lparr>oc_child := None\<rparr>, h))
      | None \<Rightarrow> (Err (io_other ''process leader was already reaped''), o', h))"

definition handoff_to_background_reaper ::
  "os_env \<Rightarrow> owned_child \<Rightarrow> history \<Rightarrow> (failure_evidence + unit) \<times> owned_child \<times> history" where
  "handoff_to_background_reaper E o' h =
     (case oc_child o' of
        None \<Rightarrow> (Ok (), o', h)
      | Some c \<Rightarrow>
     (let o' = o'\<lparr>oc_child := None\<rparr> in
      case oc_reaper o' of
        None \<Rightarrow>
          (Err (failure_from_io ''transfer child to background reaper''
             (io_other ''fallback reaper was unavailable'')), o'\<lparr>oc_child := Some c\<rparr>, h)
      | Some _ \<Rightarrow>
     (let o' = o'\<lparr>oc_reaper := None\<rparr> in
      case sys_handoff E (child_id c) h of
        (sent, h) \<Rightarrow>
          if sent then (Ok (), o', h)
          else (Err (failure_from_io ''transfer child to background reaper''
                  (CustomError BrokenPipe ''background reaper stopped before ownership transfer'')),
                o'\<lparr>oc_child := Some c\<rparr>, h))))"

text \<open>\<open>Drop\<close>: what happens to a child that is still owned when its owner goes away.\<close>

definition drop_owned :: "os_env \<Rightarrow> owned_child \<Rightarrow> history \<Rightarrow> owned_child \<times> history" where
  "drop_owned E o' h =
     (if oc_child o' = None then (o', h)
      else (case sys_kill E (oc_pgid o') h of
              (_, h) \<Rightarrow> (case handoff_to_background_reaper E o' h of (_, o', h) \<Rightarrow> (o', h))))"

section \<open>The supervisor's view of the leader\<close>

definition signal_group :: "os_env \<Rightarrow> owned_child \<Rightarrow> history \<Rightarrow> group_signal_outcome \<times> history" where
  "signal_group E o' h =
     (case owned_signal_group E o' h of
        (Ok _, h) \<Rightarrow> (Sent, h)
      | (Err e, h) \<Rightarrow>
          if raw_os_error e = Some ESRCH then (AlreadyGone, h)
          else (SignalFailed (failure_from_io ''signal process group'' e), h))"

definition observe_leader ::
  "os_env \<Rightarrow> owned_child \<Rightarrow> observations \<Rightarrow> history \<Rightarrow> observations \<times> history" where
  "observe_leader E o' obs h =
     (if leader_waitable obs \<or> observe_error obs \<noteq> None \<or> \<not> has_child o' then (obs, h)
      else (case owned_leader_waitable E o' h of
              (Ok waitable, h) \<Rightarrow> (obs\<lparr>leader_waitable := waitable\<rparr>, h)
            | (Err e, h) \<Rightarrow>
                if io_kind e = Interrupted then (obs, h)
                else (obs\<lparr>observe_error := Some e\<rparr>, h)))"

text \<open>A leader that cleanup did not settle goes to the background reaper.\<close>

definition relinquish ::
  "os_env \<Rightarrow> leader_reap_disposition \<Rightarrow> owned_child \<Rightarrow> observations \<Rightarrow> history
     \<Rightarrow> leader_reap_disposition \<times> owned_child \<times> observations \<times> history" where
  "relinquish E d o' obs h =
     (if has_child o' then
        (case handoff_to_background_reaper E o' h of
           (Ok _, o', h) \<Rightarrow> (BackgroundReaper, o', obs, h)
         | (Err failure, o', h) \<Rightarrow>
             (d, o', obs\<lparr>reap_failures := reap_failures obs @ [failure]\<rparr>, h))
      else (d, o', obs, h))"

section \<open>Ownership against the lifecycle automaton\<close>

text \<open>
  An owner agrees with the automaton: it holds the child exactly while the automaton is live,
  and it knows whether the leader was seen waitable and whether the group was signalled.
\<close>

definition owns :: "owned_child \<Rightarrow> bool \<Rightarrow> bool \<Rightarrow> history \<Rightarrow> bool" where
  "owns o' seen signalled h \<longleftrightarrow>
     (case oc_child o' of
        Some c \<Rightarrow> child_id c = oc_pgid o' \<and> phase_of h = Live (oc_pgid o') seen signalled
      | None \<Rightarrow> phase_of h = ReapedLeader \<or> phase_of h = HandedOver)"

lemma owns_accepted: "owns o' seen signalled h \<Longrightarrow> lifecycle_ok h"
  by (auto simp: owns_def lifecycle_ok_def split: option.splits)

lemma owns_quiet:
  assumes "owns o' seen signalled h" and "extends P h h'" and "\<And>e. P e \<Longrightarrow> \<not> touches_leader e"
  shows "owns o' seen signalled h'"
proof -
  have "phase_of h \<noteq> NotSpawned"
    using assms(1) by (auto simp: owns_def split: option.splits)
  with assms(2,3) have same: "phase_of h' = phase_of h" by (rule extends_phase)
  from assms(1) show ?thesis unfolding owns_def same .
qed

text \<open>
  The interface the supervisors use an owner through. The client facts are about the two
  moments that matter: reaping, which needs both the signal and the observation to have
  happened, and giving up ownership.
\<close>

locale leader_owner =
  fixes holds :: "'o \<Rightarrow> bool"
    and spec :: "'o \<Rightarrow> bool \<Rightarrow> bool \<Rightarrow> history \<Rightarrow> bool"
    and signal_op :: "'o \<Rightarrow> history \<Rightarrow> 'r \<times> history"
    and reap_op :: "'o \<Rightarrow> history \<Rightarrow> (io_error + exit_status) \<times> 'o \<times> history"
    and handoff_op :: "'o \<Rightarrow> history \<Rightarrow> (failure_evidence + unit) \<times> 'o \<times> history"
    and drop_op :: "'o \<Rightarrow> history \<Rightarrow> 'o \<times> history"
  assumes spec_accepted: "spec o' seen sig h \<Longrightarrow> lifecycle_ok h"
    and spec_quiet: "spec o' seen sig h \<Longrightarrow> extends P h h' \<Longrightarrow> (\<And>e. P e \<Longrightarrow> \<not> touches_leader e)
      \<Longrightarrow> spec o' seen sig h'"
    and spec_idle: "\<not> holds o' \<Longrightarrow> spec o' seen sig h \<Longrightarrow> spec o' seen' sig' h"
    and signal_spec: "spec o' seen sig h \<Longrightarrow> holds o' \<Longrightarrow> spec o' seen True (snd (signal_op o' h))"
    and reap_Ok: "spec o' True True h \<Longrightarrow> holds o' \<Longrightarrow> reap_op o' h = (Ok st, o'', h') \<Longrightarrow>
      \<not> holds o'' \<and> spec o'' True True h'"
    and reap_Err: "spec o' True True h \<Longrightarrow> holds o' \<Longrightarrow> reap_op o' h = (Err e, o'', h') \<Longrightarrow>
      holds o'' \<and> spec o'' True True h'"
    and handoff_Ok: "spec o' seen True h \<Longrightarrow> handoff_op o' h = (Ok u, o'', h') \<Longrightarrow>
      \<not> holds o'' \<and> spec o'' seen True h'"
    and handoff_Err: "spec o' seen True h \<Longrightarrow> handoff_op o' h = (Err f, o'', h') \<Longrightarrow>
      holds o'' \<and> spec o'' seen True h'"
    and drop_accepted: "spec o' seen sig h \<Longrightarrow> lifecycle_ok (snd (drop_op o' h))"
begin

lemma spec_call: "spec o' seen sig h \<Longrightarrow> \<not> touches_leader e \<Longrightarrow> spec o' seen sig (h @ [e])"
  by (erule spec_quiet [where P = "\<lambda>e. \<not> touches_leader e"]) auto

lemma reap_keeps:
  "spec o' True True h \<Longrightarrow> holds o' \<Longrightarrow> reap_op o' h = (r, o'', h') \<Longrightarrow> spec o'' True True h'"
  using reap_Ok reap_Err by (cases r) blast+

lemma handoff_keeps:
  "spec o' seen True h \<Longrightarrow> handoff_op o' h = (r, o'', h') \<Longrightarrow> spec o'' seen True h'"
  using handoff_Ok handoff_Err by (cases r) blast+

text \<open>Giving up ownership at the end of a lifecycle never leaves an accepted history.\<close>

lemma retire_accepted:
  "spec o' seen True h \<Longrightarrow> handoff_op o' h = (r, o'', h') \<Longrightarrow> lifecycle_ok (snd (drop_op o'' h'))"
  by (blast intro: drop_accepted handoff_keeps)

end

lemma owned_signal_history: "snd (signal_group E o' h) = h @ [EvKill (oc_pgid o') (on_kill E h (oc_pgid o'))]"
  by (auto simp: signal_group_def owned_signal_group_def sys_kill_def Let_def split: sum.split)

lemma owns_idle: "\<not> has_child o' \<Longrightarrow> owns o' seen sig h \<Longrightarrow> owns o' seen' sig' h"
  by (simp add: owns_def has_child_def)

lemma owns_signal: "owns o' seen sig h \<Longrightarrow> has_child o' \<Longrightarrow> owns o' seen True (snd (signal_group E o' h))"
  by (auto simp: owned_signal_history owns_def has_child_def view_simps split: option.splits)

lemma owns_reap:
  assumes "owns o' True True h" and "has_child o'" and "reap_waitable E o' h = (r, o'', h')"
  shows "owns o'' True True h' \<and> (has_child o'' \<longleftrightarrow> \<not> is_ok r)"
proof -
  obtain c where c: "oc_child o' = Some c" "child_id c = oc_pgid o'"
    "phase_of h = Live (oc_pgid o') True True"
    using assms(1,2) by (auto simp: owns_def has_child_def split: option.splits)
  show ?thesis
  proof (cases "on_wait E h (oc_pgid o')")
    case (Inl e)
    then have "reap_waitable E o' h = (Err e, o', h @ [EvWait (oc_pgid o') (Err e)])"
      by (simp add: reap_waitable_def sys_wait_def Let_def c)
    with assms(3) c show ?thesis by (auto simp: owns_def has_child_def view_simps)
  next
    case (Inr st)
    then have "reap_waitable E o' h =
        (Ok st, o'\<lparr>oc_child := None\<rparr>, h @ [EvWait (oc_pgid o') (Ok st)])"
      by (simp add: reap_waitable_def sys_wait_def Let_def c)
    with assms(3) c show ?thesis by (auto simp: owns_def has_child_def view_simps)
  qed
qed

lemma owns_handoff:
  assumes "owns o' seen True h" and "handoff_to_background_reaper E o' h = (r, o'', h')"
  shows "owns o'' seen True h' \<and> (has_child o'' \<longleftrightarrow> \<not> is_ok r)"
  using assms
  by (auto simp: handoff_to_background_reaper_def owns_def has_child_def sys_handoff_def Let_def
      view_simps split: option.splits if_splits)

lemma drop_owned_accepted:
  assumes "owns o' seen sig h"
  shows "lifecycle_ok (snd (drop_owned E o' h))"
proof (cases "oc_child o'")
  case None
  then show ?thesis using owns_accepted [OF assms] by (simp add: drop_owned_def)
next
  case (Some c)
  let ?h = "h @ [EvKill (oc_pgid o') (on_kill E h (oc_pgid o'))]"
  have "owns o' seen True ?h"
    using assms Some by (simp add: owns_def view_simps)
  moreover obtain r o'' h' where hand: "handoff_to_background_reaper E o' ?h = (r, o'', h')"
    by (cases "handoff_to_background_reaper E o' ?h") auto
  ultimately have "lifecycle_ok h'"
    using owns_handoff owns_accepted by blast
  then show ?thesis
    using Some hand by (simp add: drop_owned_def sys_kill_def Let_def)
qed

interpretation owner: leader_owner has_child owns
    "signal_group E" "reap_waitable E" "handoff_to_background_reaper E" "drop_owned E"
  for E
proof unfold_locales
  show "owns o' seen sig h'"
    if "owns o' seen sig h" "extends P h h'" "\<And>e. P e \<Longrightarrow> \<not> touches_leader e" for o' seen sig h P h'
    using that by (rule owns_quiet)
  show "\<not> has_child o'' \<and> owns o'' True True h'"
    if "owns o' True True h" "has_child o'" "reap_waitable E o' h = (Ok st, o'', h')"
    for o' h st o'' h'
    using owns_reap [OF that] by simp
  show "has_child o'' \<and> owns o'' True True h'"
    if "owns o' True True h" "has_child o'" "reap_waitable E o' h = (Err e, o'', h')"
    for o' h e o'' h'
    using owns_reap [OF that] by simp
  show "\<not> has_child o'' \<and> owns o'' seen True h'"
    if "owns o' seen True h" "handoff_to_background_reaper E o' h = (Ok u, o'', h')"
    for o' seen h u o'' h'
    using owns_handoff [OF that] by simp
  show "has_child o'' \<and> owns o'' seen True h'"
    if "owns o' seen True h" "handoff_to_background_reaper E o' h = (Err f, o'', h')"
    for o' seen h f o'' h'
    using owns_handoff [OF that] by simp
qed (fact owns_accepted owns_idle owns_signal drop_owned_accepted)+

text \<open>Observing the leader keeps the automaton and the observations in step.\<close>

fun is_waitid :: "event \<Rightarrow> bool" where
  "is_waitid (EvWaitId _ _) \<longleftrightarrow> True"
| "is_waitid _ \<longleftrightarrow> False"

lemma is_waitid_unread [simp]: "is_waitid e \<Longrightarrow> \<not> is_read p e"
  by (cases e) auto

lemma observe_leader_history: "extends is_waitid h (snd (observe_leader E o' obs h))"
  by (auto simp: observe_leader_def owned_leader_waitable_def has_child_def sys_waitid_def Let_def
      split: sum.split)

lemma observe_leader_frame:
  assumes "observe_leader E o' obs h = (obs', h')"
  shows "cancelled obs' = cancelled obs" "deadline_elapsed obs' = deadline_elapsed obs"
    "reap_failures obs' = reap_failures obs"
  using assms
  by (auto simp: observe_leader_def owned_leader_waitable_def has_child_def sys_waitid_def Let_def
      split: sum.splits if_splits)

lemma observe_leader_owns:
  assumes "owns o' (leader_waitable obs) sig h" and "observe_leader E o' obs h = (obs', h')"
  shows "owns o' (leader_waitable obs') sig h'"
  using assms
  by (auto simp: observe_leader_def owned_leader_waitable_def has_child_def sys_waitid_def Let_def
      owns_def view_simps split: sum.splits if_splits option.splits)

text \<open>
  Relinquishing reports a background reaper exactly when the transfer was accepted; a refused
  transfer is a recorded failure, and the drop that follows signals once more but cannot
  transfer.
\<close>

definition transfer_refused :: failure_evidence where
  "transfer_refused = failure_from_io ''transfer child to background reaper''
     (CustomError BrokenPipe ''background reaper stopped before ownership transfer'')"

lemma relinquish_idle: "\<not> has_child o' \<Longrightarrow> relinquish E d o' obs h = (d, o', obs, h)"
  by (simp add: relinquish_def)

lemma relinquish_held:
  assumes "has_child o'" and "oc_reaper o' \<noteq> None" and "owns o' seen True h"
    and "relinquish E d o' obs h = (d', o'', obs', h')"
  shows "h' = h @ [EvHandOff (oc_pgid o') (on_handoff E h (oc_pgid o'))]"
    "owns o'' seen True h'"
    "if on_handoff E h (oc_pgid o') then d' = BackgroundReaper \<and> obs' = obs \<and> \<not> has_child o''
     else d' = d \<and> obs' = obs\<lparr>reap_failures := reap_failures obs @ [transfer_refused]\<rparr> \<and>
       has_child o'' \<and> oc_reaper o'' = None \<and> oc_pgid o'' = oc_pgid o'"
proof -
  obtain c rp where c: "oc_child o' = Some c" "child_id c = oc_pgid o'" "oc_reaper o' = Some rp"
    using assms(1-3) by (auto simp: owns_def has_child_def split: option.splits)
  obtain r q h1 where step: "handoff_to_background_reaper E o' h = (r, q, h1)"
    by (cases "handoff_to_background_reaper E o' h") auto
  show "h' = h @ [EvHandOff (oc_pgid o') (on_handoff E h (oc_pgid o'))]"
    "if on_handoff E h (oc_pgid o') then d' = BackgroundReaper \<and> obs' = obs \<and> \<not> has_child o''
     else d' = d \<and> obs' = obs\<lparr>reap_failures := reap_failures obs @ [transfer_refused]\<rparr> \<and>
       has_child o'' \<and> oc_reaper o'' = None \<and> oc_pgid o'' = oc_pgid o'"
    using assms(1,4) c
    by (auto simp: relinquish_def handoff_to_background_reaper_def sys_handoff_def Let_def has_child_def
        transfer_refused_def split: if_splits)
  have "o'' = q \<and> h' = h1"
    using assms(1,4) step by (auto simp: relinquish_def split: sum.splits)
  then show "owns o'' seen True h'"
    using owns_handoff [OF assms(3) step] by simp
qed

lemma drop_after_refusal:
  assumes "has_child o' \<Longrightarrow> oc_reaper o' = None"
  shows "snd (drop_owned E o' h) =
    (if has_child o' then h @ [EvKill (oc_pgid o') (on_kill E h (oc_pgid o'))] else h)"
  using assms
  by (auto simp: drop_owned_def has_child_def handoff_to_background_reaper_def sys_kill_def Let_def)

end
