(* ===== verification/Supervisor.thy ===== *)
theory Supervisor
  imports Capture Owned_Child
begin

text \<open>
  The supervisor of a captured invocation (\<open>unix::execute\<close> in \<open>supervisor.rs\<close>): the
  supervision loop, the group signal, the bounded cleanup loop, and the construction of the
  single evidence-bearing result. Every local variable the loops mutate is a field of the
  execution state, and every call of the source is made in the source's order.
\<close>

section \<open>Waiting and polling\<close>

definition cleanup_budget_limit :: duration where
  "cleanup_budget_limit = from_secs 2"

definition event_quantum :: duration where
  "event_quantum = from_millis 10"

definition cleanup_deadline :: "os_env \<Rightarrow> history \<Rightarrow> instant \<times> history" where
  "cleanup_deadline E h =
     (case sys_now E h of
        (now, h) \<Rightarrow>
          (case checked_add (instant_limit E) now cleanup_budget_limit of
             Some d \<Rightarrow> d
           | None \<Rightarrow> now, h))"

definition wait_quantum ::
  "os_env \<Rightarrow> instant option \<Rightarrow> instant option \<Rightarrow> history \<Rightarrow> duration \<times> history" where
  "wait_quantum E deadline cleanup_at h =
     (let (now, h) = sys_now E h;
          until_deadline =
            (case deadline of
               None \<Rightarrow> event_quantum
             | Some v \<Rightarrow> min (saturating_duration_since v now) event_quantum)
      in (case cleanup_at of
            None \<Rightarrow> until_deadline
          | Some v \<Rightarrow> min until_deadline (saturating_duration_since v now), h))"

definition poll_streams ::
  "os_env \<Rightarrow> capture_stream \<Rightarrow> capture_stream \<Rightarrow> duration \<Rightarrow> history
     \<Rightarrow> (io_error + bool \<times> bool) \<times> history" where
  "poll_streams E stdout stderr timeout h =
     (let nanoseconds = subsec_nanos timeout
      in case (cap_pipe stdout, cap_pipe stderr) of
           (Some p, Some q) \<Rightarrow>
             (case sys_poll E [p, q] nanoseconds h of
                (r, h) \<Rightarrow> (map_sum errno_to_io (\<lambda>ready. (ready p, ready q)) r, h))
         | (Some p, None) \<Rightarrow>
             (case sys_poll E [p] nanoseconds h of
                (r, h) \<Rightarrow> (map_sum errno_to_io (\<lambda>ready. (ready p, False)) r, h))
         | (None, Some q) \<Rightarrow>
             (case sys_poll E [q] nanoseconds h of
                (r, h) \<Rightarrow> (map_sum errno_to_io (\<lambda>ready. (False, ready q)) r, h))
         | (None, None) \<Rightarrow> (Ok (False, False), sys_sleep timeout h))"

definition pump_fair ::
  "os_env \<Rightarrow> capture_stream \<Rightarrow> capture_stream \<Rightarrow> bool \<Rightarrow> bool \<Rightarrow> bool \<Rightarrow> history
     \<Rightarrow> capture_stream \<times> capture_stream \<times> bool \<times> history" where
  "pump_fair E stdout stderr stdout_ready stderr_ready stdout_first h =
     (if stdout_first then
        (let (stdout, h) = (if stdout_ready then pump E chunks_per_stream_turn stdout h else (stdout, h));
             (stderr, h) = (if stderr_ready then pump E chunks_per_stream_turn stderr h else (stderr, h))
         in (stdout, stderr, \<not> stdout_first, h))
      else
        (let (stderr, h) = (if stderr_ready then pump E chunks_per_stream_turn stderr h else (stderr, h));
             (stdout, h) = (if stdout_ready then pump E chunks_per_stream_turn stdout h else (stdout, h))
         in (stdout, stderr, \<not> stdout_first, h)))"

section \<open>The execution state and the steps of a turn\<close>

text \<open>
  The variables both supervisors have: the owner, the observations, what is known of the
  leader's end, and the calls made so far. A captured execution adds its two streams.
\<close>

record supervised =
  ex_owned :: owned_child
  ex_obs :: observations
  ex_status :: "exit_status option"
  ex_reap :: leader_reap_disposition
  ex_hist :: history

record exec_state = supervised +
  ex_stdout :: capture_stream
  ex_stderr :: capture_stream
  ex_stdout_first :: bool

definition observe :: "os_env \<Rightarrow> 'a supervised_scheme \<Rightarrow> 'a supervised_scheme" where
  "observe E s =
     (case observe_leader E (ex_owned s) (ex_obs s) (ex_hist s) of
        (obs, h) \<Rightarrow> s\<lparr>ex_obs := obs, ex_hist := h\<rparr>)"

definition check_cancelled :: "os_env \<Rightarrow> 'a supervised_scheme \<Rightarrow> 'a supervised_scheme" where
  "check_cancelled E s =
     (case sys_cancelled E (ex_hist s) of
        (c, h) \<Rightarrow> s\<lparr>ex_obs := (ex_obs s)\<lparr>cancelled := cancelled (ex_obs s) \<or> c\<rparr>, ex_hist := h\<rparr>)"

text \<open>\<open>deadline.is_some_and(|value| Instant::now() >= value)\<close>: no deadline, no clock reading.\<close>

definition past_deadline :: "os_env \<Rightarrow> instant option \<Rightarrow> history \<Rightarrow> bool \<times> history" where
  "past_deadline E deadline h =
     (case deadline of
        None \<Rightarrow> (False, h)
      | Some v \<Rightarrow> (case sys_now E h of (now, h) \<Rightarrow> (v \<le> now, h)))"

definition check_deadline ::
  "os_env \<Rightarrow> instant option \<Rightarrow> 'a supervised_scheme \<Rightarrow> 'a supervised_scheme" where
  "check_deadline E deadline s =
     (case past_deadline E deadline (ex_hist s) of
        (past, h) \<Rightarrow> s\<lparr>ex_obs := (ex_obs s)\<lparr>deadline_elapsed := past\<rparr>, ex_hist := h\<rparr>)"

text \<open>One poll of the open pipes for at most \<open>wait\<close>, and a fair turn for those that are ready.\<close>

definition serve_streams :: "os_env \<Rightarrow> duration \<Rightarrow> exec_state \<Rightarrow> exec_state" where
  "serve_streams E wait s =
     (case poll_streams E (ex_stdout s) (ex_stderr s) wait (ex_hist s) of
        (Ok (stdout_ready, stderr_ready), h) \<Rightarrow>
          (case pump_fair E (ex_stdout s) (ex_stderr s) stdout_ready stderr_ready
                  (ex_stdout_first s) h of
             (stdout, stderr, first, h) \<Rightarrow>
               s\<lparr>ex_stdout := stdout, ex_stderr := stderr, ex_stdout_first := first, ex_hist := h\<rparr>)
      | (Err e, h) \<Rightarrow>
          if io_kind e = Interrupted then s\<lparr>ex_hist := h\<rparr>
          else s\<lparr>ex_obs := (ex_obs s)\<lparr>observe_error := get_or_insert (observe_error (ex_obs s)) e\<rparr>,
                 ex_hist := h\<rparr>)"

definition exec_triggered :: "exec_state \<Rightarrow> bool" where
  "exec_triggered s \<longleftrightarrow>
     settlement_triggered (ex_obs s)
       (stream_overflow (ex_stdout s) \<noteq> None \<or> stream_overflow (ex_stderr s) \<noteq> None)
       (stream_failed (ex_stdout s) \<or> stream_failed (ex_stderr s))"

definition supervise_turn ::
  "os_env \<Rightarrow> instant option \<Rightarrow> exec_state \<Rightarrow> (exec_state, exec_state) flow" where
  "supervise_turn E deadline s =
     (let s = observe E s;
          s = check_cancelled E s;
          s = check_deadline E deadline s
      in if exec_triggered s then Break s
         else (case wait_quantum E deadline None (ex_hist s) of
                 (wait, h) \<Rightarrow> Continue (serve_streams E wait (s\<lparr>ex_hist := h\<rparr>))))"

text \<open>
  The reap step of a cleanup loop: it reports whether the loop may go on (a failed reap
  leaves it). The captured loop keeps running after the reap, to drain its streams, so it has
  to look whether there still is a leader.
\<close>

definition reap_step :: "os_env \<Rightarrow> 'a supervised_scheme \<Rightarrow> bool \<times> 'a supervised_scheme" where
  "reap_step E s =
     (case reap_waitable E (ex_owned s) (ex_hist s) of
        (Ok reaped, o', h) \<Rightarrow>
          (True, s\<lparr>ex_owned := o', ex_status := Some reaped, ex_reap := Reaped, ex_hist := h\<rparr>)
      | (Err e, o', h) \<Rightarrow>
          (False, s\<lparr>ex_owned := o',
             ex_obs := (ex_obs s)\<lparr>reap_failures :=
               reap_failures (ex_obs s) @ [failure_from_io ''reap process leader'' e]\<rparr>,
             ex_hist := h\<rparr>))"

definition reap_leader :: "os_env \<Rightarrow> 'a supervised_scheme \<Rightarrow> bool \<times> 'a supervised_scheme" where
  "reap_leader E s =
     (if leader_waitable (ex_obs s) \<and> has_child (ex_owned s) then reap_step E s else (True, s))"

definition exec_settled :: "exec_state \<Rightarrow> bool" where
  "exec_settled s \<longleftrightarrow>
     \<not> has_child (ex_owned s) \<and> terminal (ex_stdout s) \<and> terminal (ex_stderr s)"

definition cleanup_turn ::
  "os_env \<Rightarrow> instant option \<Rightarrow> instant \<Rightarrow> exec_state \<Rightarrow> (exec_state, exec_state) flow" where
  "cleanup_turn E deadline cleanup_at s =
     (case sys_now E (ex_hist s) of
        (now, h) \<Rightarrow>
     (let s = s\<lparr>ex_hist := h\<rparr> in
      if \<not> now < cleanup_at then Break s
      else
        (let s = check_cancelled E s;
             s = check_deadline E deadline s;
             s = observe E s
         in case reap_leader E s of
              (False, s) \<Rightarrow> Break s
            | (True, s) \<Rightarrow>
                if exec_settled s then Break s
                else (case wait_quantum E None (Some cleanup_at) (ex_hist s) of
                        (wait, h) \<Rightarrow> Continue (serve_streams E wait (s\<lparr>ex_hist := h\<rparr>))))))"

section \<open>Execution\<close>

text \<open>Everything before the first turn: nothing has been spawned when this fails.\<close>

definition begin_exec ::
  "os_env \<Rightarrow> prepared_command \<Rightarrow> history
     \<Rightarrow> (epi_error + instant \<times> instant option \<times> exec_state) \<times> history" where
  "begin_exec E pc h =
     (case start_background_reaper E (pc_program pc) h of
        (Err e, h) \<Rightarrow> (Err e, h)
      | (Ok reaper, h) \<Rightarrow>
     (case sys_now E h of
        (started, h) \<Rightarrow>
     (case execution_deadline (instant_limit E) (pc_execution pc) started of
        Err e \<Rightarrow> (Err e, h)
      | Ok deadline \<Rightarrow>
     (case sys_spawn E (pc_command pc) h of
        (Err source, h) \<Rightarrow> (Err (SpawnFailed (pc_program pc) source), h)
      | (Ok pid, h) \<Rightarrow>
     (let owned = owned_new (spawned_child (pc_command pc) pid) reaper;
          (_, owned) = take_stdin owned;
          (out_pipe, owned) = take_stdout owned;
          (err_pipe, owned) = take_stderr owned;
          (stdout, h) =
            make_nonblocking E (stream_new Stdout out_pipe (pc_stdout_capture pc)) h;
          (stderr, h) =
            make_nonblocking E (stream_new Stderr err_pipe (pc_stderr_capture pc)) h
      in (Ok (started, deadline,
            \<lparr>ex_owned = owned, ex_obs = observations_default, ex_status = None,
             ex_reap = Unreaped, ex_hist = h, ex_stdout = stdout, ex_stderr = stderr,
             ex_stdout_first = True\<rparr>), h))))))"

text \<open>What a finished invocation logs as its length.\<close>

definition duration_millis :: "duration \<Rightarrow> u64" where
  "duration_millis d =
     (if d div 1000000 \<le> u64_max then of_nat (d div 1000000) else of_nat u64_max)"

lemma duration_millis_saturates: "unat (duration_millis d) = min (d div 1000000) u64_max"
  by (simp add: duration_millis_def unat_of_nat take_bit_nat_eq_self u64_max_def)

definition unfinished :: "capture_stream \<Rightarrow> capture_stream \<Rightarrow> stream_name list" where
  "unfinished stdout stderr =
     (if \<not> terminal stdout then [Stdout] else []) @ (if \<not> terminal stderr then [Stderr] else [])"

text \<open>Everything after the cleanup loop, the drop of the owner included.\<close>

definition conclude_exec ::
  "os_env \<Rightarrow> prepared_command \<Rightarrow> instant \<Rightarrow> group_signal_outcome \<Rightarrow> exec_state
     \<Rightarrow> (epi_error + run_output) \<times> history" where
  "conclude_exec E pc started signal_outcome s =
     (let unsettled = has_child (ex_owned s);
          (reap_disposition, o', obs, h) =
            relinquish E (ex_reap s) (ex_owned s) (ex_obs s) (ex_hist s);
          streams = unfinished (ex_stdout s) (ex_stderr s);
          cleanup_result =
            (if unsettled \<or> streams \<noteq> []
             then CleanupIncomplete \<lparr>unfinished_streams = streams, leader_unsettled = unsettled,
                    cleanup_budget = cleanup_budget_limit\<rparr>
             else CleanupComplete);
          (p, obs) =
            choose_primary obs (stream_overflow (ex_stdout s)) (stream_overflow (ex_stderr s));
          (finished, h) = sys_now E h;
          evidence =
            \<lparr>leader_status = ex_status s,
             elapsed = Some (saturating_duration_since finished started),
             signal = signal_outcome,
             reap = \<lparr>disposition = reap_disposition, failures = reap_failures obs\<rparr>,
             le_stdout = into_report (ex_stdout s), le_stderr = into_report (ex_stderr s),
             cleanup = cleanup_result\<rparr>;
          result = classify p (pc_program pc) (execution_duration (pc_execution pc)) evidence;
          (_, h) = drop_owned E o' h
      in (result, h))"

definition signal_exec ::
  "os_env \<Rightarrow> 'a supervised_scheme \<Rightarrow> instant \<times> group_signal_outcome \<times> 'a supervised_scheme" where
  "signal_exec E s =
     (let (cleanup_at, h) = cleanup_deadline E (ex_hist s);
          (outcome, h) = signal_group E (ex_owned s) h
      in (cleanup_at, outcome, s\<lparr>ex_hist := h\<rparr>))"

definition finish_exec ::
  "os_env \<Rightarrow> prepared_command \<Rightarrow> instant \<Rightarrow> instant option \<Rightarrow> exec_state
     \<Rightarrow> ((epi_error + run_output) \<times> history) option" where
  "finish_exec E pc started deadline s =
     (case signal_exec E s of
        (cleanup_at, outcome, s) \<Rightarrow>
          map_option (conclude_exec E pc started outcome)
            (run_loop (cleanup_turn E deadline cleanup_at) s))"

text \<open>\<open>None\<close> is an invocation whose supervision never ends.\<close>

definition execute_unix ::
  "os_env \<Rightarrow> prepared_command \<Rightarrow> history \<Rightarrow> ((epi_error + run_output) \<times> history) option" where
  "execute_unix E pc h =
     (case begin_exec E pc h of
        (Err e, h) \<Rightarrow> Some (Err e, h)
      | (Ok (started, deadline, s), h) \<Rightarrow>
          Option.bind (run_loop (supervise_turn E deadline) s)
            (finish_exec E pc started deadline))"

definition execute ::
  "os_env \<Rightarrow> target \<Rightarrow> parent_env \<Rightarrow> ready command
     \<Rightarrow> ((epi_error + run_output) \<times> history) option" where
  "execute E t parent c =
     (case prepare t parent c of
        Err e \<Rightarrow> Some (Err e, [])
      | Ok pc \<Rightarrow>
          if backend_supported t then execute_unix E pc []
          else Some (Err (UnsupportedCapability OwnedProcessGroup), []))"

end
