(* ===== verification/Supervisor_Invariants.thy ===== *)
theory Supervisor_Invariants
  imports Supervisor
begin

text \<open>
  The invariants of a supervised execution: the capture specification of both streams, the
  agreement of the owner with the lifecycle automaton, and the provenance of what was
  observed; each step of a turn keeps them, so each loop does.
\<close>

section \<open>The invariants\<close>

definition streams_ok :: "capture_policy \<Rightarrow> capture_policy \<Rightarrow> exec_state \<Rightarrow> bool" where
  "streams_ok out_policy err_policy s \<longleftrightarrow>
     captures out_policy ChildStdout (ex_stdout s) (ex_hist s) \<and>
     captures err_policy ChildStderr (ex_stderr s) (ex_hist s) \<and>
     cap_name (ex_stdout s) = Stdout \<and> cap_name (ex_stderr s) = Stderr"

definition leader_ok :: "u32 \<Rightarrow> bool \<Rightarrow> 'a supervised_scheme \<Rightarrow> bool" where
  "leader_ok pid signalled s \<longleftrightarrow>
     owns (ex_owned s) (leader_waitable (ex_obs s)) signalled (ex_hist s) \<and>
     oc_pgid (ex_owned s) = pid \<and> oc_reaper (ex_owned s) \<noteq> None \<and>
     (if has_child (ex_owned s) then ex_status s = None \<and> ex_reap s = Unreaped
      else ex_reap s = Reaped \<and> reap_failures (ex_obs s) = [] \<and>
        (\<exists>st. ex_status s = Some st \<and> EvWait pid (Ok st) \<in> set (ex_hist s)))"

text \<open>
  A request to cancel: the token was read as set, or the cancel channel delivered a message or
  had lost its sender.
\<close>

fun cancels :: "event \<Rightarrow> bool" where
  "cancels (EvCancelled b) \<longleftrightarrow> b"
| "cancels (EvCancelTry r) \<longleftrightarrow> r \<noteq> NoMessage"
| "cancels (EvCancelWait _ r) \<longleftrightarrow> r \<noteq> NoMessage"
| "cancels _ \<longleftrightarrow> False"

definition observed_ok :: "instant option \<Rightarrow> 'a supervised_scheme \<Rightarrow> bool" where
  "observed_ok deadline s \<longleftrightarrow>
     (cancelled (ex_obs s) \<longrightarrow> (\<exists>e \<in> set (ex_hist s). cancels e)) \<and>
     (deadline_elapsed (ex_obs s) \<longrightarrow>
        (\<exists>v t. deadline = Some v \<and> EvNow t \<in> set (ex_hist s) \<and> v \<le> t))"

definition exec_inv ::
  "capture_policy \<Rightarrow> capture_policy \<Rightarrow> instant option \<Rightarrow> u32 \<Rightarrow> bool \<Rightarrow> exec_state \<Rightarrow> bool" where
  "exec_inv out_policy err_policy deadline pid signalled s \<longleftrightarrow>
     streams_ok out_policy err_policy s \<and> leader_ok pid signalled s \<and> observed_ok deadline s"

lemma exec_invI [intro]:
  "streams_ok po pe s \<Longrightarrow> leader_ok pid sig s \<Longrightarrow> observed_ok dl s \<Longrightarrow> exec_inv po pe dl pid sig s"
  by (simp add: exec_inv_def)

lemma exec_invD:
  assumes "exec_inv po pe dl pid sig s"
  shows "streams_ok po pe s" "leader_ok pid sig s" "observed_ok dl s"
  using assms by (simp_all add: exec_inv_def)

section \<open>Calls that concern neither the leader nor a pipe\<close>

definition neutral :: "event \<Rightarrow> bool" where
  "neutral e \<longleftrightarrow> \<not> touches_leader e \<and> (\<forall>p. \<not> is_read p e)"

lemma neutral_simps [simp]:
  "neutral (EvNow t)" "neutral (EvCancelled b)" "neutral (EvSleep d)" "neutral (EvPoll ps d r)"
  "neutral (EvThread nm tr)" "neutral (EvGetFlags p fr)" "neutral (EvSetFlags p fl sr)"
  "neutral (EvReserve n b)" "neutral (EvCancelTry c)" "neutral (EvCancelWait d c)"
  "neutral (EvStartup b)"
  by (simp_all add: neutral_def)

lemma streams_ok_extends:
  assumes "streams_ok po pe s" and "extends P (ex_hist s) h'" and "\<And>e p. P e \<Longrightarrow> \<not> is_read p e"
    and "ex_stdout s' = ex_stdout s" and "ex_stderr s' = ex_stderr s" and "ex_hist s' = h'"
  shows "streams_ok po pe s'"
  using assms captures_extends [of _ _ _ "ex_hist s" P h'] by (auto simp: streams_ok_def)

lemma leader_ok_extends:
  assumes "leader_ok pid sig s" and "extends P (ex_hist s) h'" and "\<And>e. P e \<Longrightarrow> \<not> touches_leader e"
    and "ex_owned s' = ex_owned s" "ex_status s' = ex_status s" "ex_reap s' = ex_reap s"
    and "leader_waitable (ex_obs s') = leader_waitable (ex_obs s)"
    and "reap_failures (ex_obs s') = reap_failures (ex_obs s)" and "ex_hist s' = h'"
  shows "leader_ok pid sig s'"
proof -
  have "owns (ex_owned s) (leader_waitable (ex_obs s)) sig h'"
    using assms(1) owns_quiet [OF _ assms(2,3)] by (simp add: leader_ok_def)
  moreover have "set (ex_hist s) \<subseteq> set h'"
    using assms(2) by (rule extends_subset)
  ultimately show ?thesis
    using assms(1,4-9) by (fastforce simp: leader_ok_def dest: subsetD)
qed

lemma observed_ok_extends:
  assumes "observed_ok dl s" and "extends P (ex_hist s) h'"
    and "cancelled (ex_obs s') = cancelled (ex_obs s)"
    and "deadline_elapsed (ex_obs s') = deadline_elapsed (ex_obs s)" and "ex_hist s' = h'"
  shows "observed_ok dl s'"
  using assms extends_subset [OF assms(2)] by (fastforce simp: observed_ok_def)

lemma exec_inv_neutral:
  assumes "exec_inv po pe dl pid sig s" and "extends neutral (ex_hist s) h'"
  shows "exec_inv po pe dl pid sig (s\<lparr>ex_hist := h'\<rparr>)"
  using exec_invD [OF assms(1)] assms(2)
  by (auto intro!: exec_invI streams_ok_extends [where P = neutral and s = s]
      leader_ok_extends [where P = neutral and s = s] observed_ok_extends [where s = s]
      simp: neutral_def)

section \<open>The steps both supervisors share\<close>

definition supervised_ok :: "instant option \<Rightarrow> u32 \<Rightarrow> bool \<Rightarrow> 'a supervised_scheme \<Rightarrow> bool" where
  "supervised_ok deadline pid signalled s \<longleftrightarrow> leader_ok pid signalled s \<and> observed_ok deadline s"

lemma exec_inv_parts: "exec_inv po pe dl pid sig s \<longleftrightarrow> streams_ok po pe s \<and> supervised_ok dl pid sig s"
  by (simp add: exec_inv_def supervised_ok_def)

lemma supervised_ok_neutral:
  assumes "supervised_ok dl pid sig s" and "extends neutral (ex_hist s) h'"
  shows "supervised_ok dl pid sig (s\<lparr>ex_hist := h'\<rparr>)"
  using assms
  by (auto intro!: leader_ok_extends [where P = neutral and s = s] observed_ok_extends [where s = s]
      simp: neutral_def supervised_ok_def)

text \<open>A neutral call whose answer may count as a request to cancel.\<close>

lemma supervised_ok_cancel:
  assumes "supervised_ok dl pid sig s" and "neutral e" and "c \<longrightarrow> cancels e"
  shows "supervised_ok dl pid sig
    (s\<lparr>ex_obs := (ex_obs s)\<lparr>cancelled := cancelled (ex_obs s) \<or> c\<rparr>, ex_hist := ex_hist s @ [e]\<rparr>)"
proof -
  have "extends neutral (ex_hist s) (ex_hist s @ [e])"
    using assms(2) by simp
  from supervised_ok_neutral [OF assms(1) this] assms(1,3) show ?thesis
    by (auto simp: supervised_ok_def leader_ok_def observed_ok_def)
qed

lemma observe_history: "extends is_waitid (ex_hist s) (ex_hist (observe E s))"
  using observe_leader_history [of "ex_hist s" E "ex_owned s" "ex_obs s"]
  by (auto simp: observe_def split: prod.split)

lemma observe_ok:
  assumes "supervised_ok dl pid sig s"
  shows "supervised_ok dl pid sig (observe E s)"
proof -
  obtain obs h where step: "observe_leader E (ex_owned s) (ex_obs s) (ex_hist s) = (obs, h)"
    by fastforce
  then have s': "observe E s = s\<lparr>ex_obs := obs, ex_hist := h\<rparr>"
    by (simp add: observe_def)
  have ext: "extends is_waitid (ex_hist s) h"
    using observe_history [of s E] s' by simp
  note frame = observe_leader_frame [OF step]
  have inv: "leader_ok pid sig s" "observed_ok dl s"
    using assms by (simp_all add: supervised_ok_def)
  have "leader_ok pid sig (observe E s)"
    using inv(1) observe_leader_owns [OF _ step] extends_subset [OF ext] frame
    by (fastforce simp: leader_ok_def s' dest: subsetD)
  moreover have "observed_ok dl (observe E s)"
    by (rule observed_ok_extends [OF inv(2) ext]) (simp_all add: s' frame)
  ultimately show ?thesis by (simp add: supervised_ok_def)
qed

lemma check_cancelled_eq:
  "check_cancelled E s =
     s\<lparr>ex_obs := (ex_obs s)\<lparr>cancelled := cancelled (ex_obs s) \<or> on_cancelled E (ex_hist s)\<rparr>,
       ex_hist := ex_hist s @ [EvCancelled (on_cancelled E (ex_hist s))]\<rparr>"
  by (simp add: check_cancelled_def sys_cancelled_def Let_def)

lemma check_cancelled_ok:
  "supervised_ok dl pid sig s \<Longrightarrow> supervised_ok dl pid sig (check_cancelled E s)"
  unfolding check_cancelled_eq by (erule supervised_ok_cancel) simp_all

lemma check_deadline_history: "extends neutral (ex_hist s) (ex_hist (check_deadline E dl s))"
  by (auto simp: check_deadline_def past_deadline_def sys_now_def Let_def split: option.split)

lemma check_deadline_ok:
  assumes "supervised_ok dl pid sig s"
  shows "supervised_ok dl pid sig (check_deadline E dl s)"
proof -
  obtain past h where step: "past_deadline E dl (ex_hist s) = (past, h)" by fastforce
  then have s': "check_deadline E dl s =
      s\<lparr>ex_obs := (ex_obs s)\<lparr>deadline_elapsed := past\<rparr>, ex_hist := h\<rparr>"
    by (simp add: check_deadline_def)
  have past: "past \<Longrightarrow> \<exists>v t. dl = Some v \<and> EvNow t \<in> set h \<and> v \<le> t"
    using step by (auto simp: past_deadline_def sys_now_def Let_def split: option.splits)
  have "extends neutral (ex_hist s) h"
    using check_deadline_history [of s E dl] s' by simp
  from supervised_ok_neutral [OF assms this] show ?thesis
    using past by (auto simp: supervised_ok_def leader_ok_def observed_ok_def s')
qed

lemma reap_step_ok:
  assumes "supervised_ok dl pid True s" and "leader_waitable (ex_obs s)" and "has_child (ex_owned s)"
    and "reap_failures (ex_obs s) = []" and "reap_step E s = (ok, s')"
  shows "supervised_ok dl pid True s'" "ok \<longleftrightarrow> reap_failures (ex_obs s') = []"
    "ok \<longleftrightarrow> \<not> has_child (ex_owned s')"
    "\<exists>r. s' = s\<lparr>ex_owned := ex_owned s', ex_obs := ex_obs s', ex_status := ex_status s',
       ex_reap := ex_reap s', ex_hist := ex_hist s @ [EvWait pid r]\<rparr>"
proof -
  have inv: "leader_ok pid True s" "observed_ok dl s"
    using assms(1) by (simp_all add: supervised_ok_def)
  obtain r o' h where step: "reap_waitable E (ex_owned s) (ex_hist s) = (r, o', h)"
    by (cases "reap_waitable E (ex_owned s) (ex_hist s)") auto
  have own: "owns (ex_owned s) True True (ex_hist s)" and pid: "oc_pgid (ex_owned s) = pid"
    using inv(1) assms(2) by (simp_all add: leader_ok_def)
  obtain c where c: "oc_child (ex_owned s) = Some c" "child_id c = pid"
    using own pid assms(3) by (auto simp: owns_def has_child_def split: option.splits)
  have frame: "oc_pgid o' = pid" "oc_reaper o' = oc_reaper (ex_owned s)"
    and h: "h = ex_hist s @ [EvWait pid r]"
    using step c pid by (auto simp: reap_waitable_def sys_wait_def Let_def split: sum.splits)
  have kept: "owns o' True True h" "has_child o' \<longleftrightarrow> \<not> is_ok r"
    using owns_reap [OF own _ step] assms(3) by simp_all
  have fields: "ex_hist s' = h" "cancelled (ex_obs s') = cancelled (ex_obs s)"
    "deadline_elapsed (ex_obs s') = deadline_elapsed (ex_obs s)"
    using assms(5) step by (auto simp: reap_step_def split: sum.splits)
  have "leader_ok pid True s'"
    using assms(2-5) step inv(1) kept frame c
    by (auto simp: reap_step_def leader_ok_def h split: sum.splits)
  moreover have "observed_ok dl s'"
    by (rule observed_ok_extends [OF inv(2), of "\<lambda>_. True" h]) (simp_all add: fields h)
  ultimately show "supervised_ok dl pid True s'" by (simp add: supervised_ok_def)
  show "ok \<longleftrightarrow> reap_failures (ex_obs s') = []" "ok \<longleftrightarrow> \<not> has_child (ex_owned s')"
    using assms(3-5) step kept by (auto simp: reap_step_def split: sum.splits)
  show "\<exists>r. s' = s\<lparr>ex_owned := ex_owned s', ex_obs := ex_obs s', ex_status := ex_status s',
       ex_reap := ex_reap s', ex_hist := ex_hist s @ [EvWait pid r]\<rparr>"
    using assms(5) step h by (auto simp: reap_step_def split: sum.splits)
qed

section \<open>The steps of a captured execution\<close>

lemma observe_inv:
  assumes "exec_inv po pe dl pid sig s"
  shows "exec_inv po pe dl pid sig (observe E s)"
proof -
  have "streams_ok po pe (observe E s)"
    by (rule streams_ok_extends [OF exec_invD(1) [OF assms] observe_history])
      (simp_all add: observe_def split: prod.split)
  with assms show ?thesis by (simp add: exec_inv_parts observe_ok)
qed

lemma check_cancelled_inv:
  assumes "exec_inv po pe dl pid sig s"
  shows "exec_inv po pe dl pid sig (check_cancelled E s)"
proof -
  have "extends neutral (ex_hist s) (ex_hist s @ [EvCancelled (on_cancelled E (ex_hist s))])"
    by simp
  then have "streams_ok po pe (check_cancelled E s)"
    by (rule streams_ok_extends [OF exec_invD(1) [OF assms]])
      (simp_all add: check_cancelled_eq neutral_def)
  with assms show ?thesis by (simp add: exec_inv_parts check_cancelled_ok)
qed

lemma check_deadline_inv:
  assumes "exec_inv po pe dl pid sig s"
  shows "exec_inv po pe dl pid sig (check_deadline E dl s)"
proof -
  have "streams_ok po pe (check_deadline E dl s)"
    by (rule streams_ok_extends [OF exec_invD(1) [OF assms] check_deadline_history])
      (simp_all add: check_deadline_def neutral_def split: prod.split)
  with assms show ?thesis by (simp add: exec_inv_parts check_deadline_ok)
qed

subsection \<open>Serving the streams\<close>

lemma poll_streams_history: "extends neutral h (snd (poll_streams E out err d h))"
  by (auto simp: poll_streams_def sys_poll_def sys_sleep_def Let_def split: option.split)

text \<open>A fair turn of both streams keeps both specifications, whichever goes first.\<close>

lemma pump_fair_spec:
  assumes "captures po ChildStdout out h" and "captures pe ChildStderr err h"
    and "pump_fair E out err a b first h = (out', err', first', h')"
  shows "captures po ChildStdout out' h'" "captures pe ChildStderr err' h'"
    "extends (\<lambda>e. pump_event ChildStdout e \<or> pump_event ChildStderr e) h h'"
    "cap_name out' = cap_name out" "cap_name err' = cap_name err" "first' = (\<not> first)"
proof -
  let ?P = "\<lambda>e. pump_event ChildStdout e \<or> pump_event ChildStderr e"
  define go_out where "go_out = (\<lambda>s h. if a then pump E chunks_per_stream_turn s h else (s, h))"
  define go_err where "go_err = (\<lambda>s h. if b then pump E chunks_per_stream_turn s h else (s, h))"
  have out: "captures po ChildStdout (fst (go_out s h)) (snd (go_out s h)) \<and>
      captures pe ChildStderr t (snd (go_out s h)) \<and> extends ?P h (snd (go_out s h)) \<and>
      cap_name (fst (go_out s h)) = cap_name s"
    if "captures po ChildStdout s h" "captures pe ChildStderr t h" for s t h
    using that stream_pair.turn_out_keeps [OF that, of E chunks_per_stream_turn]
      extends_mono [OF stream_turn.turn_history [OF that(1), of E chunks_per_stream_turn], of ?P]
    by (auto simp: go_out_def pump_name)
  have err: "captures po ChildStdout s (snd (go_err t h)) \<and>
      captures pe ChildStderr (fst (go_err t h)) (snd (go_err t h)) \<and>
      extends ?P h (snd (go_err t h)) \<and> cap_name (fst (go_err t h)) = cap_name t"
    if "captures po ChildStdout s h" "captures pe ChildStderr t h" for s t h
    using that stream_pair.turn_err_keeps [OF that, of E chunks_per_stream_turn]
      extends_mono [OF stream_turn.turn_history [OF that(2), of E chunks_per_stream_turn], of ?P]
    by (auto simp: go_err_def pump_name)
  have res: "captures po ChildStdout out' h' \<and> captures pe ChildStderr err' h' \<and> extends ?P h h' \<and>
      cap_name out' = cap_name out \<and> cap_name err' = cap_name err \<and> first' = (\<not> first)"
  proof (cases first)
    case True
    obtain s1 h1 where 1: "go_out out h = (s1, h1)" by fastforce
    obtain s2 h2 where 2: "go_err err h1 = (s2, h2)" by fastforce
    have "pump_fair E out err a b first h = (s1, s2, False, h2)"
      using True 1 2 by (simp add: pump_fair_def go_out_def go_err_def)
    then show ?thesis
      using True assms out [OF assms(1,2)] err [of s1 h1 err] 1 2 by (auto intro: extends_trans)
  next
    case False
    obtain s2 h1 where 1: "go_err err h = (s2, h1)" by fastforce
    obtain s1 h2 where 2: "go_out out h1 = (s1, h2)" by fastforce
    have "pump_fair E out err a b first h = (s1, s2, True, h2)"
      using False 1 2 by (simp add: pump_fair_def go_out_def go_err_def)
    then show ?thesis
      using False assms err [OF assms(1,2)] out [of out h1 s2] 1 2 by (auto intro: extends_trans)
  qed
  then show "captures po ChildStdout out' h'" "captures pe ChildStderr err' h'"
    "extends ?P h h'"
    "cap_name out' = cap_name out" "cap_name err' = cap_name err" "first' = (\<not> first)"
    by simp_all
qed

lemma serve_streams_inv:
  assumes "exec_inv po pe dl pid sig s"
  shows "exec_inv po pe dl pid sig (serve_streams E wait s)"
proof -
  obtain r h where poll: "poll_streams E (ex_stdout s) (ex_stderr s) wait (ex_hist s) = (r, h)"
    by fastforce
  have ext: "extends neutral (ex_hist s) h"
    using poll_streams_history [of "ex_hist s" E "ex_stdout s" "ex_stderr s" wait] poll by simp
  have polled: "exec_inv po pe dl pid sig (s\<lparr>ex_hist := h\<rparr>)"
    using assms ext by (rule exec_inv_neutral)
  show ?thesis
  proof (cases r)
    case (Inl e)
    then show ?thesis
      using poll polled
      by (auto simp: serve_streams_def exec_inv_def streams_ok_def leader_ok_def observed_ok_def)
  next
    case (Inr ready)
    obtain a b where ready: "ready = (a, b)" by fastforce
    obtain out err first h' where pf:
      "pump_fair E (ex_stdout s) (ex_stderr s) a b (ex_stdout_first s) h = (out, err, first, h')"
      by (cases "pump_fair E (ex_stdout s) (ex_stderr s) a b (ex_stdout_first s) h") auto
    have s': "serve_streams E wait s =
        s\<lparr>ex_stdout := out, ex_stderr := err, ex_stdout_first := first, ex_hist := h'\<rparr>"
      using poll Inr ready pf by (simp add: serve_streams_def)
    note inv = exec_invD [OF polled]
    have caps: "captures po ChildStdout (ex_stdout s) h" "captures pe ChildStderr (ex_stderr s) h"
      "cap_name (ex_stdout s) = Stdout" "cap_name (ex_stderr s) = Stderr"
      using inv(1) by (simp_all add: streams_ok_def)
    note spec = pump_fair_spec [OF caps(1,2) pf]
    have ext': "extends (\<lambda>e. pump_event ChildStdout e \<or> pump_event ChildStderr e)
        (ex_hist (s\<lparr>ex_hist := h\<rparr>)) h'"
      using spec(3) by simp
    have "streams_ok po pe (serve_streams E wait s)"
      using spec caps by (simp add: streams_ok_def s')
    moreover have "leader_ok pid sig (serve_streams E wait s)"
      by (rule leader_ok_extends [OF inv(2) ext'])
        (auto simp: s' pump_event_def)
    moreover have "observed_ok dl (serve_streams E wait s)"
      by (rule observed_ok_extends [OF inv(3) ext']) (simp_all add: s')
    ultimately show ?thesis by (rule exec_invI)
  qed
qed

end
