(* ===== verification/Supervisor_Loops.thy ===== *)
theory Supervisor_Loops
  imports Supervisor_Invariants
begin

text \<open>
  The two loops of a supervised execution: what a whole turn keeps, what leaving establishes,
  and that the loops end. Every turn makes at least one call, and a machine makes a bounded
  number of calls in a nanosecond, so a loop that is bounded by the clock ends.
\<close>

section \<open>Growth\<close>

abbreviation grows :: "history \<Rightarrow> history \<Rightarrow> bool" where
  "grows \<equiv> extends (\<lambda>_. True)"

lemma extends_grows: "extends P h h' \<Longrightarrow> grows h h'"
  by (erule extends_mono) simp

lemma grows_length: "grows h h' \<Longrightarrow> length h \<le> length h'"
  by (auto simp: extends_def)

lemma observe_grows: "grows (ex_hist s) (ex_hist (observe E s))"
  using extends_grows [OF observe_leader_history [of "ex_hist s" E "ex_owned s" "ex_obs s"]]
  by (auto simp: observe_def split: prod.split)

lemma check_cancelled_hist:
  "ex_hist (check_cancelled E s) = ex_hist s @ [EvCancelled (on_cancelled E (ex_hist s))]"
  by (simp add: check_cancelled_def sys_cancelled_def Let_def)

lemma check_deadline_grows: "grows (ex_hist s) (ex_hist (check_deadline E dl s))"
  by (auto simp: check_deadline_def past_deadline_def sys_now_def Let_def split: option.split)

text \<open>Nothing done to the streams touches the leader.\<close>

lemma pump_fair_untouching:
  "extends (\<lambda>e. \<not> touches_leader e) h (snd (snd (snd (pump_fair E out err a b first h))))"
proof -
  have g: "extends (\<lambda>e. \<not> touches_leader e) h (snd (pump E n s h))" for E n s h
    by (rule extends_mono [OF pump_history [of s "case cap_pipe s of Some p \<Rightarrow> p | None \<Rightarrow> ChildStdout"]])
      (auto split: option.splits dest: pump_event_quiet(1))
  have "extends (\<lambda>e. \<not> touches_leader e) h h2"
    if "pump E n s h = (s1, h1)" "pump E m t h1 = (t2, h2)" for n s s1 h1 m t t2 h2
    using g [of h E n s] g [of h1 E m t] that by (auto intro: extends_trans)
  then show ?thesis
    using g by (auto simp: pump_fair_def split: prod.splits) (metis snd_conv)+
qed

lemma serve_streams_untouching:
  "extends (\<lambda>e. \<not> touches_leader e) (ex_hist s) (ex_hist (serve_streams E wait s))"
proof -
  let ?p = "poll_streams E (ex_stdout s) (ex_stderr s) wait (ex_hist s)"
  have 1: "extends (\<lambda>e. \<not> touches_leader e) (ex_hist s) (snd ?p)"
    by (rule extends_mono [OF poll_streams_history]) (simp add: neutral_def)
  show ?thesis
  proof (cases "fst ?p")
    case (Inl e)
    with 1 show ?thesis by (cases ?p) (auto simp: serve_streams_def)
  next
    case (Inr ready)
    obtain a b where "ready = (a, b)" by fastforce
    with Inr 1 pump_fair_untouching [of "snd ?p" E "ex_stdout s" "ex_stderr s" a b "ex_stdout_first s"]
    show ?thesis
      by (cases ?p) (auto simp: serve_streams_def split: prod.split intro: extends_trans)
  qed
qed

lemma serve_streams_grows: "grows (ex_hist s) (ex_hist (serve_streams E wait s))"
  by (rule extends_grows [OF serve_streams_untouching])

lemma wait_quantum_hist: "snd (wait_quantum E dl cl h) = h @ [EvNow (on_now E h)]"
  by (simp add: wait_quantum_def sys_now_def Let_def)

section \<open>The supervision loop\<close>

lemma shared_has_child:
  "has_child (ex_owned (observe E s)) = has_child (ex_owned s)"
  "has_child (ex_owned (check_cancelled E s)) = has_child (ex_owned s)"
  "has_child (ex_owned (check_deadline E dl s)) = has_child (ex_owned s)"
  by (simp_all add: observe_def check_cancelled_def check_deadline_def split: prod.split)

lemma shared_reap_failures:
  "reap_failures (ex_obs (observe E s)) = reap_failures (ex_obs s)"
  "reap_failures (ex_obs (check_cancelled E s)) = reap_failures (ex_obs s)"
  "reap_failures (ex_obs (check_deadline E dl s)) = reap_failures (ex_obs s)"
  by (auto simp: observe_def check_cancelled_def check_deadline_def observe_leader_frame
      split: prod.split)

lemma serve_streams_frame:
  "has_child (ex_owned (serve_streams E wait s)) = has_child (ex_owned s)"
  "reap_failures (ex_obs (serve_streams E wait s)) = reap_failures (ex_obs s)"
  by (simp_all add: serve_streams_def split: prod.split sum.split)

lemmas has_child_steps = shared_has_child serve_streams_frame(1)
lemmas reap_failures_steps = shared_reap_failures serve_streams_frame(2)

text \<open>The three observations every turn begins with.\<close>

definition observed :: "os_env \<Rightarrow> instant option \<Rightarrow> exec_state \<Rightarrow> exec_state" where
  "observed E dl s = check_deadline E dl (check_cancelled E (observe E s))"

lemma supervise_turn_cases:
  "supervise_turn E dl s =
     (let s = observed E dl s; (wait, h) = wait_quantum E dl None (ex_hist s)
      in if exec_triggered s then Break s else Continue (serve_streams E wait (s\<lparr>ex_hist := h\<rparr>)))"
  by (auto simp: supervise_turn_def observed_def Let_def split: prod.split)

lemma observed_inv: "exec_inv po pe dl pid sig s \<Longrightarrow> exec_inv po pe dl pid sig (observed E dl s)"
  by (simp add: observed_def observe_inv check_cancelled_inv check_deadline_inv)

lemma observed_grows: "grows (ex_hist s) (ex_hist (observed E dl s))"
  "length (ex_hist s) < length (ex_hist (observed E dl s))"
proof -
  let ?s = "check_cancelled E (observe E s)"
  have "grows (ex_hist (observe E s)) (ex_hist ?s)" by (simp add: check_cancelled_hist)
  then have "grows (ex_hist s) (ex_hist ?s)" by (rule extends_trans [OF observe_grows])
  then show "grows (ex_hist s) (ex_hist (observed E dl s))"
    unfolding observed_def by (rule extends_trans [OF _ check_deadline_grows])
  have "length (ex_hist s) < length (ex_hist ?s)"
    using grows_length [OF observe_grows [of s E]] by (simp add: check_cancelled_hist)
  then show "length (ex_hist s) < length (ex_hist (observed E dl s))"
    using grows_length [OF check_deadline_grows [of ?s E dl]] by (simp add: observed_def)
qed

lemma supervise_turn_Continue:
  assumes "supervise_turn E dl s = Continue s'"
  obtains wait where "\<not> exec_triggered (observed E dl s)"
    "s' = serve_streams E wait
      ((observed E dl s)\<lparr>ex_hist := ex_hist (observed E dl s) @ [EvNow (on_now E (ex_hist (observed E dl s)))]\<rparr>)"
  using assms wait_quantum_hist [of E dl None "ex_hist (observed E dl s)"]
  by (auto simp: supervise_turn_cases Let_def split: if_splits prod.splits)

lemma supervise_turn_Break:
  "supervise_turn E dl s = Break r \<longleftrightarrow> exec_triggered (observed E dl s) \<and> r = observed E dl s"
  by (auto simp: supervise_turn_cases Let_def split: prod.split)

definition supervising ::
  "capture_policy \<Rightarrow> capture_policy \<Rightarrow> instant option \<Rightarrow> u32 \<Rightarrow> exec_state \<Rightarrow> bool" where
  "supervising po pe dl pid s \<longleftrightarrow> exec_inv po pe dl pid False s \<and> has_child (ex_owned s) \<and>
     reap_failures (ex_obs s) = []"

lemma supervise_turn_keeps:
  assumes "supervising po pe dl pid s" and "supervise_turn E dl s = Continue s'"
  shows "supervising po pe dl pid s'"
proof -
  from assms(2) obtain wait where s': "s' = serve_streams E wait
      ((observed E dl s)\<lparr>ex_hist := ex_hist (observed E dl s) @ [EvNow (on_now E (ex_hist (observed E dl s)))]\<rparr>)"
    by (rule supervise_turn_Continue)
  have "exec_inv po pe dl pid False (observed E dl s)"
    using assms(1) by (simp add: supervising_def observed_inv)
  with assms(1) show ?thesis
    by (auto simp: supervising_def s' has_child_steps reap_failures_steps observed_def
        intro!: serve_streams_inv exec_inv_neutral)
qed

lemma supervise_turn_leaves:
  assumes "supervising po pe dl pid s" and "supervise_turn E dl s = Break r"
  shows "supervising po pe dl pid r \<and> exec_triggered r"
  using assms observed_inv [of po pe dl pid False s E]
  by (auto simp: supervise_turn_Break supervising_def observed_def has_child_steps
      reap_failures_steps)

interpretation supervision: loop_contract "supervise_turn E dl" "supervising po pe dl pid"
    "\<lambda>s. supervising po pe dl pid s \<and> exec_triggered s"
  for E dl po pe pid
  by unfold_locales (fact supervise_turn_keeps supervise_turn_leaves)+

lemma supervise_turn_grows:
  assumes "supervise_turn E dl s = Continue s'"
  shows "grows (ex_hist (observed E dl s)) (ex_hist s')"
    "length (ex_hist s) < length (ex_hist s')"
proof -
  from assms obtain wait where s': "s' = serve_streams E wait
      ((observed E dl s)\<lparr>ex_hist := ex_hist (observed E dl s) @ [EvNow (on_now E (ex_hist (observed E dl s)))]\<rparr>)"
    by (rule supervise_turn_Continue)
  let ?h = "ex_hist (observed E dl s)"
  have "grows ?h (?h @ [EvNow (on_now E ?h)])" by simp
  also have "grows \<dots> (ex_hist s')"
    using serve_streams_grows [of "(observed E dl s)\<lparr>ex_hist := ?h @ [EvNow (on_now E ?h)]\<rparr>" E wait]
    by (simp add: s')
  finally show "grows ?h (ex_hist s')" .
  with observed_grows(2) [of s E dl] show "length (ex_hist s) < length (ex_hist s')"
    using grows_length by fastforce
qed

section \<open>The cleanup loop\<close>

lemma reap_leader_inv:
  assumes "exec_inv po pe dl pid True s" and "reap_failures (ex_obs s) = []"
    and "reap_leader E s = (ok, s')"
  shows "exec_inv po pe dl pid True s'" "ok \<longleftrightarrow> reap_failures (ex_obs s') = []"
proof -
  have "exec_inv po pe dl pid True s' \<and> (ok \<longleftrightarrow> reap_failures (ex_obs s') = [])"
  proof (cases "leader_waitable (ex_obs s) \<and> has_child (ex_owned s)")
    case False
    with assms show ?thesis by (auto simp: reap_leader_def)
  next
    case True
    then have step: "reap_step E s = (ok, s')"
      using assms(3) by (simp add: reap_leader_def)
    have parts: "streams_ok po pe s" "supervised_ok dl pid True s"
      using assms(1) by (simp_all add: exec_inv_parts)
    note R = reap_step_ok [OF parts(2) _ _ assms(2) step]
    from R(4) True obtain r where s': "s' = s\<lparr>ex_owned := ex_owned s', ex_obs := ex_obs s',
        ex_status := ex_status s', ex_reap := ex_reap s', ex_hist := ex_hist s @ [EvWait pid r]\<rparr>"
      by auto
    have ext: "extends (\<lambda>e. \<forall>p. \<not> is_read p e) (ex_hist s) (ex_hist s @ [EvWait pid r])"
      by simp
    have "ex_stdout s' = ex_stdout s" "ex_stderr s' = ex_stderr s"
      "ex_hist s' = ex_hist s @ [EvWait pid r]"
      by (subst s', simp)+
    then have "streams_ok po pe s'"
      by (intro streams_ok_extends [OF parts(1) ext]) simp_all
    with R True show ?thesis by (simp add: exec_inv_parts)
  qed
  then show "exec_inv po pe dl pid True s'" "ok \<longleftrightarrow> reap_failures (ex_obs s') = []"
    by simp_all
qed

lemma reap_leader_grows: "grows (ex_hist s) (ex_hist (snd (reap_leader E s)))"
  by (auto simp: reap_leader_def reap_step_def reap_waitable_def sys_wait_def Let_def
      split: sum.split prod.split option.split)

text \<open>The steps of a cleanup turn before the reap, for a turn that starts within the budget.\<close>

definition cleanup_observed :: "os_env \<Rightarrow> instant option \<Rightarrow> exec_state \<Rightarrow> exec_state" where
  "cleanup_observed E dl s =
     observe E (check_deadline E dl (check_cancelled E
       (s\<lparr>ex_hist := ex_hist s @ [EvNow (on_now E (ex_hist s))]\<rparr>)))"

lemma cleanup_turn_cases:
  "cleanup_turn E dl cl s =
     (if \<not> on_now E (ex_hist s) < cl
      then Break (s\<lparr>ex_hist := ex_hist s @ [EvNow (on_now E (ex_hist s))]\<rparr>)
      else (case reap_leader E (cleanup_observed E dl s) of
              (ok, s) \<Rightarrow>
                if \<not> ok \<or> exec_settled s then Break s
                else (case wait_quantum E None (Some cl) (ex_hist s) of
                        (wait, h) \<Rightarrow> Continue (serve_streams E wait (s\<lparr>ex_hist := h\<rparr>)))))"
  by (auto simp: cleanup_turn_def cleanup_observed_def sys_now_def Let_def split: prod.split bool.split)

lemma cleanup_observed_inv:
  assumes "exec_inv po pe dl pid sig s"
  shows "exec_inv po pe dl pid sig (cleanup_observed E dl s)"
  using assms unfolding cleanup_observed_def
  by (intro observe_inv check_deadline_inv check_cancelled_inv exec_inv_neutral) auto

lemma cleanup_observed_failures:
  "reap_failures (ex_obs (cleanup_observed E dl s)) = reap_failures (ex_obs s)"
  by (simp add: cleanup_observed_def reap_failures_steps)

lemma cleanup_observed_grows: "length (ex_hist s) < length (ex_hist (cleanup_observed E dl s))"
proof -
  let ?a = "check_cancelled E (s\<lparr>ex_hist := ex_hist s @ [EvNow (on_now E (ex_hist s))]\<rparr>)"
  have "length (ex_hist s) < length (ex_hist ?a)" by (simp add: check_cancelled_hist)
  also have "\<dots> \<le> length (ex_hist (check_deadline E dl ?a))"
    by (rule grows_length [OF check_deadline_grows])
  also have "\<dots> \<le> length (ex_hist (cleanup_observed E dl s))"
    unfolding cleanup_observed_def by (rule grows_length [OF observe_grows])
  finally show ?thesis .
qed

lemma cleanup_turn_Continue:
  assumes "cleanup_turn E dl cl s = Continue s'"
  obtains wait t where "on_now E (ex_hist s) < cl"
    "reap_leader E (cleanup_observed E dl s) = (True, t)" "\<not> exec_settled t"
    "s' = serve_streams E wait (t\<lparr>ex_hist := ex_hist t @ [EvNow (on_now E (ex_hist t))]\<rparr>)"
proof -
  obtain ok t where r: "reap_leader E (cleanup_observed E dl s) = (ok, t)" by fastforce
  obtain w h where w: "wait_quantum E None (Some cl) (ex_hist t) = (w, h)" by fastforce
  then have "h = ex_hist t @ [EvNow (on_now E (ex_hist t))]"
    using wait_quantum_hist [of E None "Some cl" "ex_hist t"] by simp
  with assms r w show ?thesis
    by (intro that [of t w]) (auto simp: cleanup_turn_cases split: if_splits)
qed

definition cleaning_up ::
  "capture_policy \<Rightarrow> capture_policy \<Rightarrow> instant option \<Rightarrow> u32 \<Rightarrow> exec_state \<Rightarrow> bool" where
  "cleaning_up po pe dl pid s \<longleftrightarrow> exec_inv po pe dl pid True s \<and> reap_failures (ex_obs s) = []"

lemma cleanup_turn_keeps:
  assumes "cleaning_up po pe dl pid s" and "cleanup_turn E dl cl s = Continue s'"
  shows "cleaning_up po pe dl pid s'"
proof -
  from assms(2) obtain wait t where t: "reap_leader E (cleanup_observed E dl s) = (True, t)"
    and s': "s' = serve_streams E wait (t\<lparr>ex_hist := ex_hist t @ [EvNow (on_now E (ex_hist t))]\<rparr>)"
    by (rule cleanup_turn_Continue)
  note inv = assms(1) [unfolded cleaning_up_def]
  have "exec_inv po pe dl pid True t" "reap_failures (ex_obs t) = []"
    using reap_leader_inv [OF cleanup_observed_inv _ t, of po pe pid] inv
    by (simp_all add: cleanup_observed_failures)
  then show ?thesis
    by (auto simp: cleaning_up_def s' reap_failures_steps intro!: serve_streams_inv exec_inv_neutral)
qed

text \<open>
  Leaving establishes the invariant and one of the three reasons: the budget is used up, a
  reap failed, or everything is settled.
\<close>

definition cleaned_up :: "instant \<Rightarrow> exec_state \<Rightarrow> bool" where
  "cleaned_up cl s \<longleftrightarrow>
     exec_settled s \<or> reap_failures (ex_obs s) \<noteq> [] \<or> (\<exists>t. EvNow t \<in> set (ex_hist s) \<and> cl \<le> t)"

lemma cleanup_turn_leaves:
  assumes "cleaning_up po pe dl pid s" and "cleanup_turn E dl cl s = Break r"
  shows "exec_inv po pe dl pid True r \<and> cleaned_up cl r"
proof (cases "on_now E (ex_hist s) < cl")
  case False
  let ?h = "ex_hist s @ [EvNow (on_now E (ex_hist s))]"
  from False assms(2) have r: "r = s\<lparr>ex_hist := ?h\<rparr>"
    by (simp add: cleanup_turn_cases)
  have "exec_inv po pe dl pid True r"
    using assms(1) unfolding r cleaning_up_def by (auto intro: exec_inv_neutral)
  moreover have "cleaned_up cl r"
    using False by (auto simp: cleaned_up_def r)
  ultimately show ?thesis ..
next
  case True
  obtain ok t where t: "reap_leader E (cleanup_observed E dl s) = (ok, t)" by fastforce
  with True assms(2) have "r = t" "\<not> ok \<or> exec_settled t"
    by (auto simp: cleanup_turn_cases split: if_splits prod.splits)
  moreover have "exec_inv po pe dl pid True t" "ok \<longleftrightarrow> reap_failures (ex_obs t) = []"
    using reap_leader_inv [OF cleanup_observed_inv _ t, of po pe pid] assms(1)
    by (simp_all add: cleanup_observed_failures cleaning_up_def)
  ultimately show ?thesis
    by (auto simp: cleaned_up_def)
qed

interpretation cleaning: loop_contract "cleanup_turn E dl cl" "cleaning_up po pe dl pid"
    "\<lambda>s. exec_inv po pe dl pid True s \<and> cleaned_up cl s"
  for E dl cl po pe pid
  by unfold_locales (fact cleanup_turn_keeps cleanup_turn_leaves)+

lemma cleanup_turn_grows:
  assumes "cleanup_turn E dl cl s = Continue s'"
  shows "length (ex_hist s) < length (ex_hist s')"
proof -
  from assms obtain wait t where t: "reap_leader E (cleanup_observed E dl s) = (True, t)"
    and s': "s' = serve_streams E wait (t\<lparr>ex_hist := ex_hist t @ [EvNow (on_now E (ex_hist t))]\<rparr>)"
    by (rule cleanup_turn_Continue)
  have "length (ex_hist s) < length (ex_hist t)"
    using cleanup_observed_grows [of s E dl]
      grows_length [OF reap_leader_grows [of "cleanup_observed E dl s" E]] t by simp
  also have "\<dots> \<le> length (ex_hist s')"
    using grows_length [OF serve_streams_grows
        [of "t\<lparr>ex_hist := ex_hist t @ [EvNow (on_now E (ex_hist t))]\<rparr>" E wait]]
    by (simp add: s')
  finally show ?thesis .
qed

section \<open>Both loops end\<close>

text \<open>
  The environment makes at most \<open>k\<close> calls per nanosecond of its clock, counted from the
  clock's origin: each call takes time, however little.
\<close>

definition paced :: "nat \<Rightarrow> os_env \<Rightarrow> bool" where
  "paced k E \<longleftrightarrow> (\<forall>h. length h \<le> k * on_now E h + k)"

lemma paced_before: "paced k E \<Longrightarrow> on_now E h < t \<Longrightarrow> length h \<le> k * t"
  unfolding paced_def by (metis Suc_leI le_trans mult_Suc_right mult_le_mono2 add.commute)

text \<open>
  From some point on the kernel reports every leader as waitable: the leader exits, although
  nothing says when.
\<close>

definition exits_by :: "nat \<Rightarrow> os_env \<Rightarrow> bool" where
  "exits_by n E \<longleftrightarrow> (\<forall>h pid. n \<le> length h \<longrightarrow> (\<exists>st. on_waitid E h pid = Ok (Some st)))"

lemma cleanup_descends:
  assumes "paced k E" and "cleanup_turn E dl cl s = Continue s'"
  shows "k * cl + 1 - length (ex_hist s') < k * cl + 1 - length (ex_hist s)"
proof -
  have "length (ex_hist s) \<le> k * cl"
    using assms by (elim cleanup_turn_Continue) (rule paced_before)
  then show ?thesis
    using cleanup_turn_grows [OF assms(2)] by simp
qed

lemma deadline_descends:
  assumes "paced k E" and "supervise_turn E (Some v) s = Continue s'"
  shows "k * v + 1 - length (ex_hist s') < k * v + 1 - length (ex_hist s)"
proof -
  let ?t = "check_cancelled E (observe E s)"
  from assms(2) have "\<not> exec_triggered (observed E (Some v) s)"
    by (rule supervise_turn_Continue)
  then have "on_now E (ex_hist ?t) < v"
    by (auto simp: observed_def check_deadline_def past_deadline_def sys_now_def exec_triggered_def
        settlement_triggered_def Let_def)
  with assms(1) have "length (ex_hist ?t) \<le> k * v"
    by (rule paced_before)
  then have "length (ex_hist s) \<le> k * v"
    using grows_length [OF observe_grows [of s E]] by (simp add: check_cancelled_hist)
  then show ?thesis
    using supervise_turn_grows(2) [OF assms(2)] by simp
qed

lemma exit_descends:
  assumes "exits_by n E" and "supervising po pe dl pid s" and "supervise_turn E dl s = Continue s'"
  shows "n + 1 - length (ex_hist s') < n + 1 - length (ex_hist s)"
proof -
  have "length (ex_hist s) < n"
  proof (rule ccontr)
    assume "\<not> length (ex_hist s) < n"
    then obtain st where "on_waitid E (ex_hist s) (oc_pgid (ex_owned s)) = Ok (Some st)"
      using assms(1) unfolding exits_by_def by (meson not_less)
    moreover have "has_child (ex_owned s)"
      using assms(2) by (simp add: supervising_def)
    ultimately have "leader_waitable (ex_obs (observe E s)) \<or> observe_error (ex_obs (observe E s)) \<noteq> None"
      by (auto simp: observe_def observe_leader_def owned_leader_waitable_def sys_waitid_def Let_def
          has_child_def split: prod.split)
    then have "exec_triggered (observed E dl s)"
      by (auto simp: exec_triggered_def settlement_triggered_def observed_def check_deadline_def
          check_cancelled_def split: prod.split)
    with assms(3) show False by (blast elim: supervise_turn_Continue)
  qed
  then show ?thesis
    using supervise_turn_grows(2) [OF assms(3)] by simp
qed

interpretation bounded_cleaning: terminating_loop "cleanup_turn E dl cl"
    "\<lambda>s. paced k E \<and> cleaning_up po pe dl pid s"
    "\<lambda>s. exec_inv po pe dl pid True s \<and> cleaned_up cl s"
    "\<lambda>s. k * cl + 1 - length (ex_hist s)"
  for E dl cl k po pe pid
proof (unfold_locales, goal_cases)
  case (1 s s')
  then show ?case by (auto dest: cleanup_turn_keeps)
next
  case (2 s r)
  then show ?case using cleanup_turn_leaves by blast
next
  case (3 s s')
  then show ?case using cleanup_descends by blast
qed

interpretation deadline_supervision: terminating_loop "supervise_turn E (Some v)"
    "\<lambda>s. paced k E \<and> supervising po pe (Some v) pid s"
    "\<lambda>s. supervising po pe (Some v) pid s \<and> exec_triggered s"
    "\<lambda>s. k * v + 1 - length (ex_hist s)"
  for E v k po pe pid
proof (unfold_locales, goal_cases)
  case (1 s s')
  then show ?case by (auto dest: supervise_turn_keeps)
next
  case (2 s r)
  then show ?case using supervise_turn_leaves by blast
next
  case (3 s s')
  then show ?case using deadline_descends by blast
qed

interpretation exit_supervision: terminating_loop "supervise_turn E dl"
    "\<lambda>s. exits_by n E \<and> supervising po pe dl pid s"
    "\<lambda>s. supervising po pe dl pid s \<and> exec_triggered s"
    "\<lambda>s. n + 1 - length (ex_hist s)"
  for E dl n po pe pid
proof (unfold_locales, goal_cases)
  case (1 s s')
  then show ?case by (auto dest: supervise_turn_keeps)
next
  case (2 s r)
  then show ?case using supervise_turn_leaves by blast
next
  case (3 s s')
  then show ?case using exit_descends by blast
qed

end
