(* ===== verification/Supervisor_Results.thy ===== *)
theory Supervisor_Results
  imports Supervisor_Loops
begin

text \<open>
  What the result of an execution says about the calls that were made: the evidence agrees
  with the history, the history is one the lifecycle automaton accepts, and the classification
  of the result is justified by both.
\<close>

section \<open>Evidence against a history\<close>

text \<open>
  A stream is finished, as the code has it, when it reached end of file, was redirected, or
  failed: the pipe of a failed stream was given up before its end.
\<close>

definition report_finished :: "capture_report \<Rightarrow> bool" where
  "report_finished rep \<longleftrightarrow>
     report_failure rep \<noteq> None \<or>
     (case completeness (captured rep) of
        Incomplete _ \<Rightarrow> False | CompletenessUnknown \<Rightarrow> False | _ \<Rightarrow> True)"

definition signal_of :: "errno + unit \<Rightarrow> group_signal_outcome" where
  "signal_of r =
     (case r of
        Ok _ \<Rightarrow> Sent
      | Err e \<Rightarrow>
          if e = ESRCH then AlreadyGone
          else SignalFailed (failure_from_io ''signal process group'' (errno_to_io e)))"

text \<open>
  Status and disposition: a status is reported exactly when the leader was reaped, and it is
  the status the kernel gave; a background reaper exactly when the transfer was accepted; and
  a leader that was not reaped was offered to the background reaper.
\<close>

definition settlement_truthful :: "u32 \<Rightarrow> history \<Rightarrow> lifecycle_evidence \<Rightarrow> bool" where
  "settlement_truthful pid h ev \<longleftrightarrow>
     (case leader_status ev of
        Some st \<Rightarrow> disposition (reap ev) = Reaped \<and> EvWait pid (Ok st) \<in> set h
      | None \<Rightarrow> disposition (reap ev) \<noteq> Reaped \<and> \<not> reaped_in h) \<and>
     (disposition (reap ev) = BackgroundReaper \<longleftrightarrow> handed_over_in h) \<and>
     (disposition (reap ev) \<noteq> Reaped \<longrightarrow>
        EvHandOff pid (disposition (reap ev) = BackgroundReaper) \<in> set h) \<and>
     (disposition (reap ev) = Unreaped \<longrightarrow> failures (reap ev) \<noteq> []) \<and>
     disposition (reap ev) \<noteq> DispositionUnknown"

definition cleanup_truthful :: "lifecycle_evidence \<Rightarrow> bool" where
  "cleanup_truthful ev \<longleftrightarrow>
     (let streams =
            (if report_finished (le_stdout ev) then [] else [Stdout]) @
            (if report_finished (le_stderr ev) then [] else [Stderr])
      in cleanup ev =
           (if disposition (reap ev) = Reaped \<and> streams = [] then CleanupComplete
            else CleanupIncomplete \<lparr>unfinished_streams = streams,
                   leader_unsettled = (disposition (reap ev) \<noteq> Reaped),
                   cleanup_budget = cleanup_budget_limit\<rparr>))"

definition evidence_truthful ::
  "capture_policy \<Rightarrow> capture_policy \<Rightarrow> u32 \<Rightarrow> history \<Rightarrow> lifecycle_evidence \<Rightarrow> bool" where
  "evidence_truthful po pe pid h ev \<longleftrightarrow>
     report_truthful po ChildStdout (le_stdout ev) h \<and> report_stream (le_stdout ev) = Stdout \<and>
     report_truthful pe ChildStderr (le_stderr ev) h \<and> report_stream (le_stderr ev) = Stderr \<and>
     (\<exists>r. EvKill pid r \<in> set h \<and> signal ev = signal_of r) \<and>
     settlement_truthful pid h ev \<and> cleanup_truthful ev"

text \<open>
  No child is left alone: a spawned leader's group was signalled, and the leader was reaped or
  offered to the background reaper.
\<close>

definition attended :: "u32 \<Rightarrow> history \<Rightarrow> bool" where
  "attended pid h \<longleftrightarrow>
     (\<exists>k. EvKill pid k \<in> set h) \<and>
     ((\<exists>st. EvWait pid (Ok st) \<in> set h) \<or> (\<exists>b. EvHandOff pid b \<in> set h))"

definition settles :: "history \<Rightarrow> bool" where
  "settles h \<longleftrightarrow> lifecycle_ok h \<and> (\<forall>pid. EvSpawn (Ok pid) \<in> set h \<longrightarrow> attended pid h)"

lemma truthful_attended: "evidence_truthful po pe pid h ev \<Longrightarrow> attended pid h"
  by (auto simp: evidence_truthful_def settlement_truthful_def attended_def split: option.splits)

lemma settles_unspawned:
  "lifecycle_ok h \<Longrightarrow> (\<And>pid. EvSpawn (Ok pid) \<notin> set h) \<Longrightarrow> settles h"
  by (simp add: settles_def)

lemma settles_spawned:
  "lifecycle_ok h \<Longrightarrow> EvSpawn (Ok pid) \<in> set h \<Longrightarrow> attended pid h \<Longrightarrow> settles h"
  using spawned_once by (auto simp: settles_def)

lemma report_truthful_extends:
  assumes "report_truthful policy p rep h" and "extends P h h'" and "\<And>e. P e \<Longrightarrow> \<not> is_read p e"
  shows "report_truthful policy p rep h'"
proof -
  have same: "bytes_read p h' = bytes_read p h" "eof_seen p h' = eof_seen p h"
    using assms(2,3) by (blast dest: extends_unread)+
  show ?thesis using assms(1) unfolding report_truthful_def same .
qed

lemma into_report_finished: "report_finished (into_report s) \<longleftrightarrow> terminal s"
  by (auto simp: report_finished_def into_report_def terminal_def settled_def incomplete_def
      redirected_stream_def)

lemma signal_group_of: "signal_group E o' h =
    (signal_of (on_kill E h (oc_pgid o')), h @ [EvKill (oc_pgid o') (on_kill E h (oc_pgid o'))])"
  by (auto simp: signal_group_def owned_signal_group_def sys_kill_def signal_of_def Let_def
      errno_to_io_def split: sum.split)

section \<open>Before the first turn\<close>

lemma flag_calls_supervise:
  assumes "extends is_flag_call h h'"
  shows "read_count p h' = read_count p h" "bytes_read p h' = bytes_read p h"
    "eof_seen p h' = eof_seen p h" "phase_of h \<noteq> NotSpawned \<Longrightarrow> phase_of h' = phase_of h"
  using extends_unread [OF assms, of p] extends_phase [OF assms] by auto

lemma begin_exec_Ok:
  assumes "begin_exec E pc [] = (Ok (started, dl, s), h)"
  obtains pid where "supervising (pc_stdout_capture pc) (pc_stderr_capture pc) dl pid s"
    "execution_deadline (instant_limit E) (pc_execution pc) started = Ok dl"
    "EvNow started \<in> set (ex_hist s)" "EvSpawn (Ok pid) \<in> set (ex_hist s)"
proof -
  let ?po = "pc_stdout_capture pc" and ?pe = "pc_stderr_capture pc"
  let ?h1 = "[EvThread ''epitelesis-background-reaper'' (on_thread E [] ''epitelesis-background-reaper'')]"
  let ?h2 = "?h1 @ [EvNow (on_now E ?h1)]"
  obtain u where thread: "on_thread E [] ''epitelesis-background-reaper'' = Ok u"
    using assms by (auto simp: begin_exec_def start_background_reaper_def io_defs Let_def
        split: sum.splits prod.splits)
  have started: "started = on_now E ?h1"
    and dl: "execution_deadline (instant_limit E) (pc_execution pc) started = Ok dl"
    using assms thread by (auto simp: begin_exec_def start_background_reaper_def io_defs Let_def
        split: sum.splits prod.splits)
  obtain pid where pid: "on_spawn E ?h2 (pc_command pc) = Ok pid"
    using assms thread dl started by (auto simp: begin_exec_def start_background_reaper_def io_defs Let_def
        split: sum.splits prod.splits)
  let ?h3 = "?h2 @ [EvSpawn (Ok pid)]"
  let ?c = "spawned_child (pc_command pc) pid"
  let ?out = "stream_new Stdout (child_stdout ?c) ?po" and ?err = "stream_new Stderr (child_stderr ?c) ?pe"
  obtain out h4 where out: "make_nonblocking E ?out ?h3 = (out, h4)" by fastforce
  obtain err h5 where err: "make_nonblocking E ?err h4 = (err, h5)" by fastforce
  have s: "s = \<lparr>ex_owned = \<lparr>oc_child = Some (?c\<lparr>child_stdin := None, child_stdout := None, child_stderr := None\<rparr>),
        oc_pgid = pid, oc_reaper = Some ReaperSender\<rparr>,
      ex_obs = observations_default, ex_status = None, ex_reap = Unreaped, ex_hist = h5,
      ex_stdout = out, ex_stderr = err, ex_stdout_first = True\<rparr>"
    using assms thread dl started pid out err
    by (auto simp: begin_exec_def start_background_reaper_def io_defs Let_def owned_new_def
        take_stdin_def take_stdout_def take_stderr_def spawned_child_def)
  have 1: "extends is_flag_call ?h3 h4" and 2: "extends is_flag_call h4 h5"
    using make_nonblocking_history [of ?h3 E ?out] make_nonblocking_history [of h4 E ?err] out err by simp_all
  note 3 = extends_trans [OF 1 2]
  have fresh: "read_count p ?h3 = 0" "bytes_read p ?h3 = []" "\<not> eof_seen p ?h3" for p
    by (simp_all add: read_count_def bytes_read_def eof_seen_def)
  have "captures ?po ChildStdout ?out ?h3"
    by (rule captures_new) (simp_all only: fresh, auto simp: spawned_child_def piped_def)
  then have "captures ?po ChildStdout out h4"
    using make_nonblocking_captures [of ?po ChildStdout ?out ?h3 E] out by simp
  then have cap_out: "captures ?po ChildStdout out h5"
    using captures_extends [OF _ 2] by simp
  have "captures ?pe ChildStderr ?err h4"
    by (rule captures_new)
      (simp_all only: flag_calls_supervise [OF 1] fresh, auto simp: spawned_child_def piped_def)
  then have cap_err: "captures ?pe ChildStderr err h5"
    using make_nonblocking_captures [of ?pe ChildStderr ?err h4 E] err by simp
  have names: "cap_name out = Stdout" "cap_name err = Stderr"
    using make_nonblocking_cases [of E ?out ?h3] make_nonblocking_cases [of E ?err h4] out err
    by (auto simp: stream_new_def record_failure_def)
  have phase: "phase_of h5 = Live pid False False"
    using flag_calls_supervise(4) [OF 3] thread by (simp add: phase_of_def)
  have "supervising ?po ?pe dl pid s"
    using cap_out cap_err names phase
    by (auto simp: supervising_def exec_inv_def streams_ok_def leader_ok_def observed_ok_def owns_def
        observations_default_def has_child_def spawned_child_def s)
  moreover have "set ?h3 \<subseteq> set (ex_hist s)"
    using extends_subset [OF 3] by (simp add: s)
  ultimately show ?thesis
    using dl started by (intro that) auto
qed

text \<open>A failure before the first turn spawned nothing and carries no evidence.\<close>

lemma begin_exec_Err:
  assumes "begin_exec E pc [] = (Err e, h)"
  shows "error_evidence e = None" "lifecycle_ok h" "\<And>pid. EvSpawn (Ok pid) \<notin> set h"
    "\<And>pid r. EvKill pid r \<notin> set h"
  using assms
  by (auto simp: begin_exec_def start_background_reaper_def io_defs Let_def lifecycle_ok_def
      phase_of_def execution_deadline_def split: sum.splits prod.splits execution_policy.splits
      option.splits)

section \<open>The signal\<close>

lemma signal_exec_ok:
  assumes "supervised_ok dl pid False s" and "has_child (ex_owned s)"
    and "signal_exec E s = (cl, outcome, s')"
  shows "supervised_ok dl pid True s'"
    "\<exists>r t. outcome = signal_of r \<and> s' = s\<lparr>ex_hist := ex_hist s @ [EvNow t, EvKill pid r]\<rparr>"
proof -
  have inv: "leader_ok pid False s" "observed_ok dl s"
    using assms(1) by (simp_all add: supervised_ok_def)
  let ?t = "on_now E (ex_hist s)"
  let ?h = "ex_hist s @ [EvNow ?t]"
  let ?r = "on_kill E ?h pid"
  have pgid: "oc_pgid (ex_owned s) = pid"
    using inv(1) by (simp add: leader_ok_def)
  have s': "s' = s\<lparr>ex_hist := ?h @ [EvKill pid ?r]\<rparr>" and outcome: "outcome = signal_of ?r"
    using assms(3) pgid
    by (auto simp: signal_exec_def cleanup_deadline_def signal_group_of sys_now_def Let_def)
  have "owns (ex_owned s) (leader_waitable (ex_obs s)) False ?h"
    using inv(1) owner.spec_call [of "ex_owned s" _ False "ex_hist s" "EvNow ?t"]
    by (simp add: leader_ok_def)
  from owns_signal [OF this assms(2), of E]
  have "owns (ex_owned s) (leader_waitable (ex_obs s)) True (?h @ [EvKill pid ?r])"
    by (simp add: signal_group_of pgid)
  then have "leader_ok pid True s'"
    using inv(1) assms(2) by (simp add: leader_ok_def s')
  moreover have "observed_ok dl s'"
    by (rule observed_ok_extends [OF inv(2), of "\<lambda>_. True" "?h @ [EvKill pid ?r]"])
      (simp_all add: s' extends_def)
  ultimately show "supervised_ok dl pid True s'" by (simp add: supervised_ok_def)
  show "\<exists>r t. outcome = signal_of r \<and> s' = s\<lparr>ex_hist := ex_hist s @ [EvNow t, EvKill pid r]\<rparr>"
    using s' outcome by auto
qed

lemma signal_exec_cleans:
  assumes "supervising po pe dl pid s" and "signal_exec E s = (cl, outcome, s')"
  shows "cleaning_up po pe dl pid s'"
    "\<exists>r. EvKill pid r \<in> set (ex_hist s') \<and> outcome = signal_of r"
    "grows (ex_hist s) (ex_hist s')"
proof -
  have parts: "streams_ok po pe s" "supervised_ok dl pid False s" "has_child (ex_owned s)"
    using assms(1) by (simp_all add: supervising_def exec_inv_parts)
  note sig = signal_exec_ok [OF parts(2,3) assms(2)]
  obtain r t where r: "outcome = signal_of r"
    and s': "s' = s\<lparr>ex_hist := ex_hist s @ [EvNow t, EvKill pid r]\<rparr>"
    using sig(2) by auto
  have "extends (\<lambda>e. \<forall>p. \<not> is_read p e) (ex_hist s) (ex_hist s @ [EvNow t, EvKill pid r])"
    by (simp add: extends_def)
  then have "streams_ok po pe s'"
    by (rule streams_ok_extends [OF parts(1)]) (simp_all add: s')
  with sig(1) assms(1) show "cleaning_up po pe dl pid s'"
    by (simp add: cleaning_up_def supervising_def exec_inv_parts s')
  show "\<exists>r. EvKill pid r \<in> set (ex_hist s') \<and> outcome = signal_of r"
    using r by (auto simp: s')
  show "grows (ex_hist s) (ex_hist s')"
    by (simp add: s' extends_def)
qed

section \<open>The conclusion\<close>

definition exec_evidence ::
  "instant \<Rightarrow> instant \<Rightarrow> group_signal_outcome \<Rightarrow> bool \<Rightarrow> leader_reap_disposition
     \<Rightarrow> failure_evidence list \<Rightarrow> exec_state \<Rightarrow> lifecycle_evidence" where
  "exec_evidence started finished outcome unsettled d reaps s =
     \<lparr>leader_status = ex_status s, elapsed = Some (saturating_duration_since finished started),
      signal = outcome, reap = \<lparr>disposition = d, failures = reaps\<rparr>,
      le_stdout = into_report (ex_stdout s), le_stderr = into_report (ex_stderr s),
      cleanup =
        (if unsettled \<or> unfinished (ex_stdout s) (ex_stderr s) \<noteq> []
         then CleanupIncomplete \<lparr>unfinished_streams = unfinished (ex_stdout s) (ex_stderr s),
                leader_unsettled = unsettled, cleanup_budget = cleanup_budget_limit\<rparr>
         else CleanupComplete)\<rparr>"

lemma conclude_exec_eq:
  assumes "relinquish E (ex_reap s) (ex_owned s) (ex_obs s) (ex_hist s) = (d, o', obs, h)"
  shows "conclude_exec E pc started outcome s =
    (classify (fst (choose_primary obs (stream_overflow (ex_stdout s)) (stream_overflow (ex_stderr s))))
       (pc_program pc) (execution_duration (pc_execution pc))
       (exec_evidence started (on_now E h) outcome (has_child (ex_owned s)) d (reap_failures obs) s),
     snd (drop_owned E o' (h @ [EvNow (on_now E h)])))"
proof -
  obtain p obs' where p:
    "choose_primary obs (stream_overflow (ex_stdout s)) (stream_overflow (ex_stderr s)) = (p, obs')"
    by fastforce
  then have "reap_failures obs' = reap_failures obs"
    using choose_primary_frame [of obs "stream_overflow (ex_stdout s)" "stream_overflow (ex_stderr s)"]
    by simp
  with p show ?thesis
    by (simp add: conclude_exec_def assms exec_evidence_def sys_now_def Let_def split: prod.split)
qed

text \<open>
  What happens to the leader between the end of cleanup and the return, as the history sees
  it, with the disposition that is reported.
\<close>

lemma relinquish_outcome:
  assumes inv: "leader_ok pid True s"
    and rel: "relinquish E (ex_reap s) (ex_owned s) (ex_obs s) (ex_hist s) = (d, o', obs, h)"
    and fin: "h' = snd (drop_owned E o' (h @ [EvNow t]))"
  shows "lifecycle_ok h' \<and> extends (\<lambda>e. \<forall>p. \<not> is_read p e) (ex_hist s) h' \<and>
      (has_child (ex_owned s) \<longleftrightarrow> d \<noteq> Reaped) \<and> (ex_status s = None \<longleftrightarrow> d \<noteq> Reaped) \<and>
      (reaped_in h' \<longleftrightarrow> d = Reaped) \<and> (handed_over_in h' \<longleftrightarrow> d = BackgroundReaper) \<and>
      (d = Unreaped \<longrightarrow> reap_failures obs \<noteq> []) \<and> d \<noteq> DispositionUnknown \<and>
      observe_error obs = observe_error (ex_obs s) \<and> cancelled obs = cancelled (ex_obs s) \<and>
      deadline_elapsed obs = deadline_elapsed (ex_obs s) \<and>
      (d \<noteq> Reaped \<longrightarrow> EvHandOff pid (d = BackgroundReaper) \<in> set h')"
proof -
  let ?h = "ex_hist s"
  have owns: "owns (ex_owned s) (leader_waitable (ex_obs s)) True ?h" and pgid: "oc_pgid (ex_owned s) = pid"
    and reaper: "oc_reaper (ex_owned s) \<noteq> None"
    using inv by (simp_all add: leader_ok_def)
  have ok: "lifecycle_ok ?h" by (rule owns_accepted [OF owns])
  note facts = phase_settlement [OF ok]
  show ?thesis
  proof (cases "has_child (ex_owned s)")
    case False
    then have "h' = ?h @ [EvNow t]" "d = Reaped" "obs = ex_obs s" "ex_status s \<noteq> None" "reaped_in ?h"
      using rel fin inv
      by (auto simp: relinquish_idle drop_owned_def has_child_def leader_ok_def reaped_in_def)
    moreover have "\<not> handed_over_in ?h" using facts calculation by auto
    ultimately show ?thesis
      using False ok by (simp add: lifecycle_ok_def view_simps)
  next
    case True
    then have live: "phase_of ?h = Live pid (leader_waitable (ex_obs s)) True"
      and status: "ex_status s = None" "ex_reap s = Unreaped"
      using owns pgid inv by (auto simp: owns_def has_child_def leader_ok_def split: option.splits)
    note held = relinquish_held [OF True reaper owns rel]
    let ?sent = "on_handoff E ?h pid"
    have gone: "\<not> reaped_in ?h" "\<not> handed_over_in ?h" using facts live by simp_all
    show ?thesis
    proof (cases ?sent)
      case sent: True
      then have "d = BackgroundReaper" "obs = ex_obs s" "\<not> has_child o'"
        using held(3) by (simp_all add: pgid)
      moreover from this have "h' = ?h @ [EvHandOff pid True] @ [EvNow t]"
        using held(1) sent fin by (simp add: pgid drop_owned_def has_child_def)
      ultimately show ?thesis
        using True status live gone
        by (auto simp: lifecycle_ok_def phase_of_append extends_def reaped_in_def handed_over_in_def)
    next
      case refused: False
      then have d: "d = Unreaped" "reap_failures obs \<noteq> []" "has_child o'" "oc_reaper o' = None"
        "oc_pgid o' = pid" and obs: "obs = ex_obs s\<lparr>reap_failures := reap_failures (ex_obs s) @ [transfer_refused]\<rparr>"
        using held(3) status by (simp_all add: pgid)
      define k where "k = on_kill E (h @ [EvNow t]) pid"
      have "h' = ?h @ [EvHandOff pid False, EvNow t, EvKill pid k]"
        using held(1) refused fin d drop_after_refusal [of o' E "h @ [EvNow t]"]
        by (simp add: pgid k_def)
      then show ?thesis
        using True status live gone d obs
        by (auto simp: lifecycle_ok_def phase_of_append extends_def reaped_in_def handed_over_in_def)
    qed
  qed
qed

lemma relinquished:
  assumes inv: "leader_ok pid True s"
    and rel: "relinquish E (ex_reap s) (ex_owned s) (ex_obs s) (ex_hist s) = (d, o', obs, h)"
    and fin: "h' = snd (drop_owned E o' (h @ [EvNow t]))"
  shows "lifecycle_ok h'" "extends (\<lambda>e. \<forall>p. \<not> is_read p e) (ex_hist s) h'"
    "has_child (ex_owned s) \<longleftrightarrow> d \<noteq> Reaped" "ex_status s = None \<longleftrightarrow> d \<noteq> Reaped"
    "reaped_in h' \<longleftrightarrow> d = Reaped" "handed_over_in h' \<longleftrightarrow> d = BackgroundReaper"
    "d = Unreaped \<longrightarrow> reap_failures obs \<noteq> []" "d \<noteq> DispositionUnknown"
    "observe_error obs = observe_error (ex_obs s)" "cancelled obs = cancelled (ex_obs s)"
    "deadline_elapsed obs = deadline_elapsed (ex_obs s)"
    "d \<noteq> Reaped \<longrightarrow> EvHandOff pid (d = BackgroundReaper) \<in> set h'"
  using relinquish_outcome [OF inv rel fin] by blast+

lemma unfinished_iff:
  "unfinished (ex_stdout s) (ex_stderr s) =
     (if report_finished (into_report (ex_stdout s)) then [] else [Stdout]) @
     (if report_finished (into_report (ex_stderr s)) then [] else [Stderr])"
  by (simp add: unfinished_def into_report_finished)

lemma exec_evidence_truthful:
  assumes inv: "exec_inv po pe dl pid True s"
    and rel: "relinquish E (ex_reap s) (ex_owned s) (ex_obs s) (ex_hist s) = (d, o', obs, h)"
    and fin: "h' = snd (drop_owned E o' (h @ [EvNow t]))"
    and kill: "EvKill pid r \<in> set (ex_hist s)"
  shows "evidence_truthful po pe pid h'
    (exec_evidence started t (signal_of r) (has_child (ex_owned s)) d (reap_failures obs) s)"
proof -
  note I = exec_invD [OF inv]
  note R = relinquished [OF I(2) rel fin]
  have more: "set (ex_hist s) \<subseteq> set h'" by (rule extends_subset [OF R(2)])
  have caps: "captures po ChildStdout (ex_stdout s) (ex_hist s)" "captures pe ChildStderr (ex_stderr s) (ex_hist s)"
    "cap_name (ex_stdout s) = Stdout" "cap_name (ex_stderr s) = Stderr"
    using I(1) by (simp_all add: streams_ok_def)
  have reports: "report_truthful po ChildStdout (into_report (ex_stdout s)) h'"
    "report_truthful pe ChildStderr (into_report (ex_stderr s)) h'"
    using into_report_truthful [OF caps(1)] into_report_truthful [OF caps(2)]
    by (auto intro: report_truthful_extends [OF _ R(2)])
  have status: "ex_status s = Some st \<Longrightarrow> d = Reaped \<and> EvWait pid (Ok st) \<in> set h'" for st
    using R(3,4) I(2) more by (fastforce simp: leader_ok_def dest: subsetD)
  have "settlement_truthful pid h'
      (exec_evidence started t (signal_of r) (has_child (ex_owned s)) d (reap_failures obs) s)"
    using status R by (auto simp: settlement_truthful_def exec_evidence_def split: option.split)
  moreover have "cleanup_truthful
      (exec_evidence started t (signal_of r) (has_child (ex_owned s)) d (reap_failures obs) s)"
    using R(3) by (simp add: cleanup_truthful_def exec_evidence_def unfinished_iff Let_def)
  ultimately show ?thesis
    using reports kill more caps(3,4)
    by (auto simp: evidence_truthful_def exec_evidence_def)
qed

end
