(* ===== verification/Executions.thy ===== *)
theory Executions
  imports Supervisor_Results
begin

text \<open>
  Whole executions: the invariants of the loops, the signal and the conclusion put together
  into one description of what an invocation that returned has done, from which the properties
  of results follow.
\<close>

section \<open>The shape of an execution that returned\<close>

interpretation supervision_growth: loop_contract "supervise_turn E dl"
    "\<lambda>s. grows h (ex_hist s)" "\<lambda>s. grows h (ex_hist s)"
  for E dl h
proof (unfold_locales, goal_cases)
  case (1 s s')
  with observed_grows(1) [of s E dl] supervise_turn_grows(1) [of E dl s s'] show ?case
    by (meson extends_trans)
next
  case (2 s r)
  with observed_grows(1) [of s E dl] show ?case
    by (auto simp: supervise_turn_Break intro: extends_trans)
qed

lemma cleanup_observed_extends: "grows (ex_hist s) (ex_hist (cleanup_observed E dl s))"
proof -
  let ?s = "s\<lparr>ex_hist := ex_hist s @ [EvNow (on_now E (ex_hist s))]\<rparr>"
  have "grows (ex_hist s) (ex_hist (check_cancelled E ?s))"
    by (simp add: check_cancelled_hist extends_def)
  also have "grows \<dots> (ex_hist (check_deadline E dl (check_cancelled E ?s)))"
    by (rule check_deadline_grows)
  also have "grows \<dots> (ex_hist (cleanup_observed E dl s))"
    unfolding cleanup_observed_def by (rule observe_grows)
  finally show ?thesis .
qed

lemma reaped_grows:
  "reap_leader E (cleanup_observed E dl s) = (ok, t) \<Longrightarrow> grows (ex_hist s) (ex_hist t)"
  using cleanup_observed_extends [of s E dl] reap_leader_grows [of "cleanup_observed E dl s" E]
  by (auto intro: extends_trans)

interpretation cleaning_growth: loop_contract "cleanup_turn E dl cl"
    "\<lambda>s. grows h (ex_hist s)" "\<lambda>s. grows h (ex_hist s)"
  for E dl cl h
proof (unfold_locales, goal_cases)
  case (1 s s')
  from 1(2) obtain wait t where t: "reap_leader E (cleanup_observed E dl s) = (True, t)"
    and s': "s' = serve_streams E wait (t\<lparr>ex_hist := ex_hist t @ [EvNow (on_now E (ex_hist t))]\<rparr>)"
    by (rule cleanup_turn_Continue)
  have "grows h (ex_hist t @ [EvNow (on_now E (ex_hist t))])"
    using 1(1) reaped_grows [OF t] by (auto intro: extends_trans extends_snoc)
  then show ?case
    using serve_streams_grows [of "t\<lparr>ex_hist := ex_hist t @ [EvNow (on_now E (ex_hist t))]\<rparr>" E wait]
    by (auto simp: s' intro: extends_trans)
next
  case (2 s r)
  obtain ok t where t: "reap_leader E (cleanup_observed E dl s) = (ok, t)" by fastforce
  show ?case
  proof (cases "on_now E (ex_hist s) < cl")
    case True
    with 2(2) t have "r = t" by (auto simp: cleanup_turn_cases split: if_splits prod.splits)
    with 2(1) reaped_grows [OF t] show ?thesis by (auto intro: extends_trans)
  next
    case False
    with 2 show ?thesis by (auto simp: cleanup_turn_cases intro: extends_snoc)
  qed
qed

lemma finish_exec_Some:
  assumes "supervising po pe dl pid s" and "finish_exec E pc started dl s = Some (r, h)"
  obtains cl kr t where "exec_inv po pe dl pid True t" "cleaned_up cl t" "grows (ex_hist s) (ex_hist t)"
    "EvKill pid kr \<in> set (ex_hist t)" "conclude_exec E pc started (signal_of kr) t = (r, h)"
proof -
  obtain cl outcome s' where sig: "signal_exec E s = (cl, outcome, s')"
    by (cases "signal_exec E s") auto
  note S = signal_exec_cleans [OF assms(1) sig]
  obtain kr where kr: "EvKill pid kr \<in> set (ex_hist s')" "outcome = signal_of kr"
    using S(2) by auto
  from assms(2) sig obtain t where t: "run_loop (cleanup_turn E dl cl) s' = Some t"
    and res: "conclude_exec E pc started outcome t = (r, h)"
    by (auto simp: finish_exec_def)
  have "exec_inv po pe dl pid True t \<and> cleaned_up cl t"
    using cleaning.result [OF t S(1)] .
  moreover have "grows (ex_hist s') (ex_hist t)"
    using cleaning_growth.result [OF t] by simp
  ultimately show ?thesis
    using that kr res S(3) extends_subset [of "\<lambda>_. True" "ex_hist s'" "ex_hist t"]
    by (blast intro: extends_trans)
qed

text \<open>The path of an execution: before the first turn, the two loops, and what is between them.\<close>

lemma execute_unix_steps:
  assumes "execute_unix E pc [] = Some (r, h)"
  obtains (refused) e where "r = Err e" "begin_exec E pc [] = (Err e, h)"
  | (ran) started dl s h0 s1 cl outcome s2 s3 where
    "begin_exec E pc [] = (Ok (started, dl, s), h0)" "run_loop (supervise_turn E dl) s = Some s1"
    "signal_exec E s1 = (cl, outcome, s2)" "run_loop (cleanup_turn E dl cl) s2 = Some s3"
    "conclude_exec E pc started outcome s3 = (r, h)"
    "finish_exec E pc started dl s1 = Some (r, h)"
proof (cases "begin_exec E pc []")
  case (Pair b h0)
  show ?thesis
  proof (cases b)
    case (Inl e)
    with Pair assms show ?thesis by (intro refused) (simp_all add: execute_unix_def)
  next
    case (Inr v)
    obtain started dl s where v: "v = (started, dl, s)" by (cases v)
    from assms Pair Inr v obtain s1 where s1: "run_loop (supervise_turn E dl) s = Some s1"
      and fin: "finish_exec E pc started dl s1 = Some (r, h)"
      by (auto simp: execute_unix_def bind_eq_Some_conv)
    obtain cl outcome s2 where sig: "signal_exec E s1 = (cl, outcome, s2)"
      by (cases "signal_exec E s1") auto
    with fin obtain s3 where "run_loop (cleanup_turn E dl cl) s2 = Some s3"
      "conclude_exec E pc started outcome s3 = (r, h)"
      by (auto simp: finish_exec_def)
    with Pair Inr v s1 sig fin show ?thesis by (intro ran) simp_all
  qed
qed

lemma execute_unix_Some:
  assumes "execute_unix E pc [] = Some (r, h)"
  obtains (refused) e where "r = Err e" "begin_exec E pc [] = (Err e, h)"
  | (ran) started dl pid cl kr t where
    "execution_deadline (instant_limit E) (pc_execution pc) started = Ok dl"
    "EvNow started \<in> set (ex_hist t)" "EvSpawn (Ok pid) \<in> set (ex_hist t)"
    "EvKill pid kr \<in> set (ex_hist t)"
    "exec_inv (pc_stdout_capture pc) (pc_stderr_capture pc) dl pid True t" "cleaned_up cl t"
    "conclude_exec E pc started (signal_of kr) t = (r, h)"
  using assms
proof (cases rule: execute_unix_steps)
  case (refused e)
  then show ?thesis by (rule that(1))
next
  case (ran started dl s h0 s1 cl' outcome s2 s3)
  from ran(1) obtain pid where sup: "supervising (pc_stdout_capture pc) (pc_stderr_capture pc) dl pid s"
    and dl: "execution_deadline (instant_limit E) (pc_execution pc) started = Ok dl"
    and seen: "EvNow started \<in> set (ex_hist s)" "EvSpawn (Ok pid) \<in> set (ex_hist s)"
    by (rule begin_exec_Ok)
  have "grows (ex_hist s) (ex_hist s1)"
    using supervision_growth.result [OF ran(2)] by simp
  moreover have "supervising (pc_stdout_capture pc) (pc_stderr_capture pc) dl pid s1"
    using supervision.result [OF ran(2) sup] by simp
  then obtain cl kr t where
    t: "exec_inv (pc_stdout_capture pc) (pc_stderr_capture pc) dl pid True t" "cleaned_up cl t"
      "grows (ex_hist s1) (ex_hist t)" "EvKill pid kr \<in> set (ex_hist t)"
      "conclude_exec E pc started (signal_of kr) t = (r, h)"
    using ran(6) by (rule finish_exec_Some)
  ultimately have "set (ex_hist s) \<subseteq> set (ex_hist t)"
    by (meson extends_subset extends_trans)
  with t dl seen show ?thesis by (intro that(2)) auto
qed

section \<open>The result of an execution that returned\<close>

text \<open>
  One elimination rule carries the properties: either nothing was spawned, or the result is the
  classification of truthful evidence under observations that really were made.
\<close>

lemma execution_result:
  assumes "execute_unix E pc [] = Some (r, h)"
  obtains (refused) e where "r = Err e" "error_evidence e = None" "lifecycle_ok h"
    "\<And>pid. EvSpawn (Ok pid) \<notin> set h" "\<And>pid k. EvKill pid k \<notin> set h"
  | (settled) pid obs ev where
    "r = classify
       (fst (choose_primary obs
          (overflow_of (pc_stdout_capture pc) (length (bytes_read ChildStdout h)))
          (overflow_of (pc_stderr_capture pc) (length (bytes_read ChildStderr h)))))
       (pc_program pc) (execution_duration (pc_execution pc)) ev"
    "lifecycle_ok h" "EvSpawn (Ok pid) \<in> set h"
    "evidence_truthful (pc_stdout_capture pc) (pc_stderr_capture pc) pid h ev"
    "cancelled obs \<Longrightarrow> \<exists>e \<in> set h. cancels e"
    "deadline_elapsed obs \<Longrightarrow> \<exists>d started t. pc_execution pc = Deadline d \<and>
       EvNow started \<in> set h \<and> EvNow t \<in> set h \<and> started + d \<le> t"
  using assms
proof (cases rule: execute_unix_Some)
  case (refused e)
  note facts = begin_exec_Err [OF refused(2)]
  show ?thesis
    by (rule that(1) [of e]) (use refused(1) facts in auto)
next
  case (ran started dl pid cl kr s)
  let ?po = "pc_stdout_capture pc" and ?pe = "pc_stderr_capture pc"
  obtain d o' obs h1 where rel:
    "relinquish E (ex_reap s) (ex_owned s) (ex_obs s) (ex_hist s) = (d, o', obs, h1)"
    by (cases "relinquish E (ex_reap s) (ex_owned s) (ex_obs s) (ex_hist s)") auto
  define t where "t = on_now E h1"
  define ev where
    "ev = exec_evidence started t (signal_of kr) (has_child (ex_owned s)) d (reap_failures obs) s"
  have r: "r = classify
      (fst (choose_primary obs (stream_overflow (ex_stdout s)) (stream_overflow (ex_stderr s))))
      (pc_program pc) (execution_duration (pc_execution pc)) ev"
    and h: "h = snd (drop_owned E o' (h1 @ [EvNow t]))"
    using ran(7) conclude_exec_eq [OF rel, of pc started "signal_of kr"] by (simp_all add: ev_def t_def)
  note I = exec_invD [OF ran(5)]
  note R = relinquished [OF I(2) rel h]
  have more: "set (ex_hist s) \<subseteq> set h" by (rule extends_subset [OF R(2)])
  have same: "bytes_read p h = bytes_read p (ex_hist s)" for p
    by (rule extends_unread(1) [OF R(2)]) simp
  have ov: "stream_overflow (ex_stdout s) = overflow_of ?po (length (bytes_read ChildStdout h))"
    "stream_overflow (ex_stderr s) = overflow_of ?pe (length (bytes_read ChildStderr h))"
    using I(1) by (simp_all add: same streams_ok_def captures_def accounts_def stream_overflow_def)
  have truth: "evidence_truthful ?po ?pe pid h ev"
    unfolding ev_def by (rule exec_evidence_truthful [OF ran(5) rel h ran(4)])
  have canc: "\<exists>e \<in> set h. cancels e" if "cancelled obs"
    using that R(10) I(3) more by (auto simp: observed_ok_def)
  have late: "\<exists>d started t. pc_execution pc = Deadline d \<and>
       EvNow started \<in> set h \<and> EvNow t \<in> set h \<and> started + d \<le> t" if "deadline_elapsed obs"
  proof -
    from that R(11) I(3) obtain v t where v: "dl = Some v" "EvNow t \<in> set (ex_hist s)" "v \<le> t"
      by (auto simp: observed_ok_def)
    with ran(1) obtain d where "pc_execution pc = Deadline d" "v = started + d"
      by (auto simp: execution_deadline_Ok split: execution_policy.splits)
    with v ran(2) more show ?thesis by blast
  qed
  show ?thesis
    by (rule that(2) [of obs ev pid]) (use r ov R(1) ran(3) more truth canc late in auto)
qed

section \<open>Executions return\<close>

lemma finish_exec_returns:
  assumes "paced k E" and "supervising po pe dl pid s"
  shows "\<exists>r. finish_exec E pc started dl s = Some r"
proof -
  obtain cl outcome s' where sig: "signal_exec E s = (cl, outcome, s')"
    by (cases "signal_exec E s") auto
  have "paced k E \<and> cleaning_up po pe dl pid s'"
    using assms signal_exec_cleans(1) [OF assms(2) sig] by simp
  from bounded_cleaning.returns [OF this] obtain t where "run_loop (cleanup_turn E dl cl) s' = Some t"
    by blast
  with sig show ?thesis by (simp add: finish_exec_def)
qed

text \<open>From some point on the shared token reads as set.\<close>

definition token_set_by :: "nat \<Rightarrow> os_env \<Rightarrow> bool" where
  "token_set_by n E \<longleftrightarrow> (\<forall>h. n \<le> length h \<longrightarrow> on_cancelled E h)"

lemma token_descends:
  assumes "token_set_by n E" and "supervise_turn E dl s = Continue s'"
  shows "n + 1 - length (ex_hist s') < n + 1 - length (ex_hist s)"
proof -
  have "\<not> n \<le> length (ex_hist s)"
  proof
    assume "n \<le> length (ex_hist s)"
    also have "\<dots> \<le> length (ex_hist (observe E s))" by (rule grows_length [OF observe_grows])
    finally have "on_cancelled E (ex_hist (observe E s))" using assms(1) by (simp add: token_set_by_def)
    then have "exec_triggered (observed E dl s)"
      by (simp add: exec_triggered_def settlement_triggered_def observed_def check_cancelled_eq
          check_deadline_def split: prod.split)
    with assms(2) show False by (blast elim: supervise_turn_Continue)
  qed
  with supervise_turn_grows(2) [OF assms(2)] show ?thesis by simp
qed

interpretation token_supervision: terminating_loop "supervise_turn E dl"
    "\<lambda>s. token_set_by n E \<and> supervising po pe dl pid s"
    "\<lambda>s. supervising po pe dl pid s \<and> exec_triggered s"
    "\<lambda>s. n + 1 - length (ex_hist s)"
  for E dl n po pe pid
proof (unfold_locales, goal_cases)
  case (1 s s')
  then show ?case by (auto dest: supervise_turn_keeps)
next
  case (2 s r)
  then show ?case using supervise_turn_leaves by blast
next
  case (3 s s')
  then show ?case using token_descends by blast
qed

lemma execute_unix_returns:
  assumes "paced k E" and "(\<exists>d. pc_execution pc = Deadline d) \<or> exits_by n E \<or> token_set_by n E"
  shows "\<exists>r h. execute_unix E pc [] = Some (r, h)"
proof (cases "begin_exec E pc []")
  case (Pair b h)
  show ?thesis
  proof (cases b)
    case (Inl e)
    with Pair show ?thesis by (simp add: execute_unix_def)
  next
    case (Inr v)
    obtain started dl s where v: "v = (started, dl, s)" by (cases v)
    with Pair Inr have "begin_exec E pc [] = (Ok (started, dl, s), h)" by simp
    then obtain pid where sup: "supervising (pc_stdout_capture pc) (pc_stderr_capture pc) dl pid s"
      and dl: "execution_deadline (instant_limit E) (pc_execution pc) started = Ok dl"
      by (rule begin_exec_Ok)
    have "\<exists>s1. run_loop (supervise_turn E dl) s = Some s1"
    proof (cases "\<exists>d. pc_execution pc = Deadline d")
      case True
      with dl obtain t where t: "dl = Some t"
        by (auto simp: execution_deadline_Ok split: execution_policy.splits)
      show ?thesis
        using deadline_supervision.returns [of k E "pc_stdout_capture pc" "pc_stderr_capture pc" t pid s]
          assms(1) sup
        unfolding t by blast
    next
      case False
      with assms(2) have "exits_by n E \<or> token_set_by n E" by simp
      with sup show ?thesis
        using exit_supervision.returns [of n E "pc_stdout_capture pc" "pc_stderr_capture pc" dl pid s]
          token_supervision.returns [of n E "pc_stdout_capture pc" "pc_stderr_capture pc" dl pid s]
        by blast
    qed
    then obtain s1 where s1: "run_loop (supervise_turn E dl) s = Some s1" ..
    have "supervising (pc_stdout_capture pc) (pc_stderr_capture pc) dl pid s1"
      using supervision.result [OF s1 sup] by simp
    from finish_exec_returns [OF assms(1) this] Pair Inr v s1 show ?thesis
      by (auto simp: execute_unix_def)
  qed
qed

section \<open>Invocations\<close>

lemma prepare_Err: "prepare t parent c = Err e \<Longrightarrow> error_evidence e = None"
  by (auto simp: prepare_def validate_backend_def validate_path_policy_def Let_def
      split: sum.splits if_splits)

lemma execute_returns:
  assumes "paced k E"
    and "(\<exists>d. execution (c_state c) = Deadline d) \<or> exits_by n E \<or> token_set_by n E"
  shows "\<exists>r h. execute E t parent c = Some (r, h)"
proof (cases "prepare t parent c")
  case (Inl e)
  then show ?thesis by (simp add: execute_def)
next
  case (Inr pc)
  then have pc: "pc_execution pc = execution (c_state c)" "backend_supported t"
    by (simp_all add: prepare_Ok)
  have "\<exists>r h. execute_unix E pc [] = Some (r, h)"
    using execute_unix_returns [OF assms(1), of pc n] assms(2) pc(1) by simp
  with Inr pc show ?thesis by (simp add: execute_def)
qed

text \<open>The elimination rule of the properties, in terms of the command.\<close>

lemma execute_cases:
  assumes "execute E t parent c = Some (r, h)"
  obtains (refused) e where "r = Err e" "error_evidence e = None" "lifecycle_ok h"
    "\<And>pid. EvSpawn (Ok pid) \<notin> set h" "\<And>pid k. EvKill pid k \<notin> set h"
  | (settled) pid obs ev where
    "r = classify
       (fst (choose_primary obs
          (overflow_of (c_stdout_capture c) (length (bytes_read ChildStdout h)))
          (overflow_of (c_stderr_capture c) (length (bytes_read ChildStderr h)))))
       (PathDisplay (c_program c)) (execution_duration (execution (c_state c))) ev"
    "lifecycle_ok h" "EvSpawn (Ok pid) \<in> set h"
    "evidence_truthful (c_stdout_capture c) (c_stderr_capture c) pid h ev"
    "cancelled obs \<Longrightarrow> \<exists>e \<in> set h. cancels e"
    "deadline_elapsed obs \<Longrightarrow> \<exists>d started t. execution (c_state c) = Deadline d \<and>
       EvNow started \<in> set h \<and> EvNow t \<in> set h \<and> started + d \<le> t"
proof (cases "prepare t parent c")
  case (Inl e)
  with assms have "r = Err e" "h = []" by (simp_all add: execute_def)
  with prepare_Err [OF Inl] show ?thesis
    by (intro refused) (auto simp: lifecycle_ok_def)
next
  case (Inr pc)
  then have pc: "pc_execution pc = execution (c_state c)" "pc_program pc = PathDisplay (c_program c)"
    "pc_stdout_capture pc = c_stdout_capture c" "pc_stderr_capture pc = c_stderr_capture c"
    and sup: "backend_supported t"
    by (simp_all add: prepare_Ok)
  from Inr sup assms have "execute_unix E pc [] = Some (r, h)" by (simp add: execute_def)
  then show ?thesis
  proof (cases rule: execution_result)
    case (refused e)
    then show ?thesis by (rule that(1))
  next
    case (settled pid obs ev)
    then show ?thesis unfolding pc by (rule that(2))
  qed
qed

lemma execute_settles:
  assumes "execute E t parent c = Some (r, h)"
  shows "settles h"
  using assms
proof (cases rule: execute_cases)
  case (refused e)
  then show ?thesis by (intro settles_unspawned)
next
  case (settled pid obs ev)
  then show ?thesis by (intro settles_spawned truthful_attended)
qed

section \<open>What a classified result says\<close>

text \<open>A stream of a successful execution: whole, unless the command lets it be cut.\<close>

lemma truthful_whole:
  assumes "report_truthful policy p rep h" and "report_finished rep" and "report_failure rep = None"
    and "overflow_of policy (length (bytes_read p h)) = None"
  shows "cs_bytes (captured rep) = retained_by policy (bytes_read p h)"
    "(\<forall>limit. policy \<noteq> Bounded limit TruncateAndDrain) \<Longrightarrow>
       cs_bytes (captured rep) = bytes_read p h \<and>
       (eof_seen p h \<or> completeness (captured rep) = Redirected)"
proof -
  have nil: "xs = []" if "prefix xs (retained_by policy [])" for xs :: "byte list"
    using that by simp
  show "cs_bytes (captured rep) = retained_by policy (bytes_read p h)"
    using assms(1-3) nil retained_by_prefix [of policy "bytes_read p h"]
    by (cases "completeness (captured rep)")
      (auto simp: report_truthful_def report_finished_def intro: prefix_order.antisym)
  assume uncut: "\<forall>limit. policy \<noteq> Bounded limit TruncateAndDrain"
  have all: "retained_by policy (bytes_read p h) = bytes_read p h"
    using assms(4) uncut
    by (cases "(policy, length (bytes_read p h))" rule: overflow_of.cases) (auto split: if_splits)
  show "cs_bytes (captured rep) = bytes_read p h \<and>
       (eof_seen p h \<or> completeness (captured rep) = Redirected)"
    using assms(1-3) all nil
    by (cases "completeness (captured rep)") (auto simp: report_truthful_def report_finished_def)
qed

text \<open>What the classification makes of an outcome that is an error.\<close>

lemma classify_Timeout:
  "classify p program d ev = Err (Timeout program' d' ev') \<Longrightarrow> p = PrimaryDeadline \<and> d = Some d' \<and> ev' = ev"
  by (auto simp: classify_def capture_overrides_def classify_exit_def Let_def
      split: primary.splits option.splits if_splits)

lemma classify_Cancelled:
  "classify p program d ev = Err (Cancelled program' ev') \<Longrightarrow> p = PrimaryCancelled \<and> ev' = ev"
  by (auto simp: classify_def capture_overrides_def classify_exit_def Let_def
      split: primary.splits option.splits if_splits)

lemma classify_Limit:
  "classify p program d ev = Err (CaptureLimitExceeded program' stream limit ev') \<longleftrightarrow>
     p = PrimaryLimit stream limit \<and> program' = program \<and> ev' = ev"
  by (auto simp: classify_def capture_overrides_def classify_exit_def Let_def
      split: primary.splits option.splits if_splits)

lemma classify_NonZero:
  "classify p program d ev = Err (NonZeroExit program' ev') \<Longrightarrow>
     p = PrimaryExit \<and> settled_exit ev \<and> (\<exists>st. leader_status ev = Some st \<and> \<not> success st) \<and> ev' = ev"
  using classify_exit_NonZero [of program ev program' ev']
  by (cases "classify_exit program ev")
    (auto simp: classify_def capture_overrides_def Let_def
      split: primary.splits option.splits if_splits)

lemma choose_primary_Limit:
  "fst (choose_primary obs a b) = PrimaryLimit stream limit \<longleftrightarrow>
     (stream = Stdout \<and> a = Some limit \<or> stream = Stderr \<and> a = None \<and> b = Some limit)"
  by (auto simp: choose_primary_def split: option.split)

lemma choose_primary_Cancelled:
  "fst (choose_primary obs a b) = PrimaryCancelled \<longleftrightarrow> a = None \<and> b = None \<and> cancelled obs"
  by (auto simp: choose_primary_def split: option.split)

end
