(* ===== verification/Managed_Supervisor.thy ===== *)
theory Managed_Supervisor
  imports Executions
begin

text \<open>
  The supervisor of a managed streaming child (\<open>unix::managed_supervisor\<close> and
  \<open>unix::supervise_managed\<close> in \<open>supervisor.rs\<close>). It runs on a thread of its own, captures
  nothing, and is asked to cancel through a channel whose answers are the environment's. Its
  state is the part of a captured execution's state that does not concern streams, and the
  steps on that part are the same.
\<close>

section \<open>Startup\<close>

record managed_startup =
  su_id :: u32
  su_stdin :: "pipe option"
  su_stdout :: "pipe option"
  su_stderr :: "pipe option"

text \<open>Everything before the startup message.\<close>

definition managed_begin ::
  "os_env \<Rightarrow> prepared_command \<Rightarrow> history
     \<Rightarrow> (epi_error + managed_startup \<times> instant \<times> instant option \<times> owned_child) \<times> history" where
  "managed_begin E pc h =
     (case start_background_reaper E (pc_program pc) h of
        (Err e, h) \<Rightarrow> (Err e, h)
      | (Ok reaper, h) \<Rightarrow>
     (case sys_now E h of
        (started, h) \<Rightarrow>
     (case execution_deadline (instant_limit E) (pc_execution pc) started of
        Err e \<Rightarrow> (Err e, h)
      | Ok deadline \<Rightarrow>
     (case sys_spawn E (pc_command pc) h of
        (Err source, h) \<Rightarrow> (Err (SpawnFailed (pc_program pc) source), h)
      | (Ok pid, h) \<Rightarrow>
     (let owned = owned_new (spawned_child (pc_command pc) pid) reaper;
          id = owned_id owned;
          (inp, owned) = take_stdin owned;
          (out, owned) = take_stdout owned;
          (err, owned) = take_stderr owned
      in (Ok (\<lparr>su_id = id, su_stdin = inp, su_stdout = out, su_stderr = err\<rparr>,
            started, deadline, owned), h))))))"

section \<open>Supervision\<close>

definition cancellation_received :: "os_env \<Rightarrow> history \<Rightarrow> bool \<times> history" where
  "cancellation_received E h =
     (case sys_cancel_try E h of
        (Received, h) \<Rightarrow> (True, h)
      | (Disconnected, h) \<Rightarrow> (True, h)
      | (NoMessage, h) \<Rightarrow> (False, h))"

definition poll_cancel :: "os_env \<Rightarrow> 'a supervised_scheme \<Rightarrow> 'a supervised_scheme" where
  "poll_cancel E s =
     (case cancellation_received E (ex_hist s) of
        (c, h) \<Rightarrow> s\<lparr>ex_obs := (ex_obs s)\<lparr>cancelled := cancelled (ex_obs s) \<or> c\<rparr>, ex_hist := h\<rparr>)"

text \<open>\<open>recv_timeout\<close>: a message or a lost sender is a cancellation, a timeout is nothing.\<close>

definition await_cancel :: "os_env \<Rightarrow> duration \<Rightarrow> 'a supervised_scheme \<Rightarrow> 'a supervised_scheme" where
  "await_cancel E wait s =
     (case sys_cancel_wait E wait (ex_hist s) of
        (NoMessage, h) \<Rightarrow> s\<lparr>ex_hist := h\<rparr>
      | (_, h) \<Rightarrow> s\<lparr>ex_obs := (ex_obs s)\<lparr>cancelled := True\<rparr>, ex_hist := h\<rparr>)"

definition managed_turn ::
  "os_env \<Rightarrow> instant option \<Rightarrow> supervised \<Rightarrow> (supervised, supervised) flow" where
  "managed_turn E deadline s =
     (let s = observe E s;
          s = poll_cancel E s;
          s = check_deadline E deadline s
      in if settlement_triggered (ex_obs s) False False then Break s
         else (case wait_quantum E deadline None (ex_hist s) of
                 (wait, h) \<Rightarrow> Continue (await_cancel E wait (s\<lparr>ex_hist := h\<rparr>))))"

definition managed_cleanup_turn ::
  "os_env \<Rightarrow> instant \<Rightarrow> supervised \<Rightarrow> (supervised, supervised) flow" where
  "managed_cleanup_turn E cleanup_at s =
     (if \<not> has_child (ex_owned s) then Break s
      else
     (case sys_now E (ex_hist s) of
        (now, h) \<Rightarrow>
     (let s = s\<lparr>ex_hist := h\<rparr> in
      if \<not> now < cleanup_at then Break s
      else
        (let s = observe E s in
         case (if leader_waitable (ex_obs s) then reap_step E s else (True, s)) of
           (False, s) \<Rightarrow> Break s
         | (True, s) \<Rightarrow>
             if has_child (ex_owned s) then
               (case sys_now E (ex_hist s) of
                  (now, h) \<Rightarrow>
                    Continue (await_cancel E
                      (min (saturating_duration_since cleanup_at now) event_quantum)
                      (s\<lparr>ex_hist := h\<rparr>)))
             else Continue s))))"

text \<open>Everything after the cleanup loop, the drop of the owner included.\<close>

definition managed_conclude ::
  "os_env \<Rightarrow> prepared_command \<Rightarrow> instant \<Rightarrow> group_signal_outcome \<Rightarrow> supervised
     \<Rightarrow> (epi_error + managed_output) \<times> history" where
  "managed_conclude E pc started signal_outcome s =
     (let unsettled = has_child (ex_owned s);
          (reap_disposition, o', obs, h) =
            relinquish E (ex_reap s) (ex_owned s) (ex_obs s) (ex_hist s);
          cleanup_result =
            (if unsettled
             then CleanupIncomplete \<lparr>unfinished_streams = [], leader_unsettled = True,
                    cleanup_budget = cleanup_budget_limit\<rparr>
             else CleanupComplete);
          (p, obs) = choose_primary obs None None;
          (finished, h) = sys_now E h;
          evidence =
            \<lparr>leader_status = ex_status s,
             elapsed = Some (saturating_duration_since finished started),
             signal = signal_outcome,
             reap = \<lparr>disposition = reap_disposition, failures = reap_failures obs\<rparr>,
             le_stdout = redirected_report Stdout, le_stderr = redirected_report Stderr,
             cleanup = cleanup_result\<rparr>;
          result = classify_managed p (pc_program pc) (execution_duration (pc_execution pc)) evidence;
          (_, h) = drop_owned E o' h
      in (result, h))"

definition managed_initial :: "owned_child \<Rightarrow> history \<Rightarrow> supervised" where
  "managed_initial owned h =
     \<lparr>ex_owned = owned, ex_obs = observations_default, ex_status = None, ex_reap = Unreaped,
      ex_hist = h\<rparr>"

definition managed_finish ::
  "os_env \<Rightarrow> prepared_command \<Rightarrow> instant \<Rightarrow> supervised
     \<Rightarrow> ((epi_error + managed_output) \<times> history) option" where
  "managed_finish E pc started s =
     (case signal_exec E s of
        (cleanup_at, outcome, s) \<Rightarrow>
          map_option (managed_conclude E pc started outcome)
            (run_loop (managed_cleanup_turn E cleanup_at) s))"

definition supervise_managed ::
  "os_env \<Rightarrow> prepared_command \<Rightarrow> owned_child \<Rightarrow> instant option \<Rightarrow> instant \<Rightarrow> history
     \<Rightarrow> ((epi_error + managed_output) \<times> history) option" where
  "supervise_managed E pc owned deadline started h =
     Option.bind (run_loop (managed_turn E deadline) (managed_initial owned h))
       (managed_finish E pc started)"

section \<open>The supervisor thread and the launch\<close>

text \<open>
  The thread sends one startup message, and if the caller took it, supervises and sends one
  terminal result. The pair is the message and what the thread did afterwards: \<open>None\<close> if it
  never ends, otherwise the terminal result if there was one, with the history.
\<close>

definition managed_supervisor ::
  "os_env \<Rightarrow> prepared_command \<Rightarrow> history
     \<Rightarrow> (epi_error + managed_startup) \<times> ((epi_error + managed_output) option \<times> history) option" where
  "managed_supervisor E pc h =
     (case managed_begin E pc h of
        (Err e, h) \<Rightarrow> (Err e, Some (None, snd (sys_startup E h)))
      | (Ok (startup, started, deadline, owned), h) \<Rightarrow>
          (Ok startup,
           case sys_startup E h of
             (taken, h) \<Rightarrow>
               if taken then
                 map_option (\<lambda>(terminal, h). (Some terminal, h))
                   (supervise_managed E pc owned deadline started h)
               else
                 (case owned_signal_group E owned h of
                    (_, h) \<Rightarrow>
                      (case handoff_to_background_reaper E owned h of
                         (_, owned, h) \<Rightarrow> Some (None, snd (drop_owned E owned h))))))"

text \<open>
  What the launching thread receives: the startup message, or the news that the supervisor
  thread panicked or exited without sending one. Every path of \<open>managed_supervisor\<close> sends, and
  panics of the thread before that are not modelled, so a launch here always receives the message;
  the two other branches are what the code would answer.
\<close>

datatype startup_answer =
  StartupMessage "epi_error + managed_startup" | StartupPanicked | StartupExited

definition receive_startup :: "label \<Rightarrow> startup_answer \<Rightarrow> epi_error + managed_startup" where
  "receive_startup program answer =
     (case answer of
        StartupMessage (Ok startup) \<Rightarrow> Ok startup
      | StartupMessage (Err e) \<Rightarrow> Err e
      | StartupPanicked \<Rightarrow>
          Err (SupervisionFailed program
            (io_other ''managed supervisor panicked before reporting startup'') unknown_evidence)
      | StartupExited \<Rightarrow>
          Err (SupervisionFailed program
            (io_other ''managed supervisor exited before reporting startup'') unknown_evidence))"

text \<open>
  The launch, with what the supervisor thread goes on to do; a thread that could not be
  started does nothing.
\<close>

definition launch_managed ::
  "os_env \<Rightarrow> prepared_command
     \<Rightarrow> (epi_error + managed_startup) \<times> ((epi_error + managed_output) option \<times> history) option" where
  "launch_managed E pc =
     (case sys_thread E ''epitelesis-managed-supervisor'' [] of
        (Err source, h) \<Rightarrow> (Err (SupervisorStartFailed (pc_program pc) source), Some (None, h))
      | (Ok _, h) \<Rightarrow>
          (case managed_supervisor E pc h of
             (message, rest) \<Rightarrow> (receive_startup (pc_program pc) (StartupMessage message), rest)))"

definition spawn_managed ::
  "os_env \<Rightarrow> target \<Rightarrow> parent_env \<Rightarrow> streaming_command
     \<Rightarrow> (epi_error + managed_startup) \<times> ((epi_error + managed_output) option \<times> history) option" where
  "spawn_managed E t parent sc =
     (case prepare t parent (streaming_inner sc) of
        Err e \<Rightarrow> (Err e, Some (None, []))
      | Ok pc \<Rightarrow>
          if backend_supported t then launch_managed E pc
          else (Err (UnsupportedCapability OwnedProcessGroup), Some (None, [])))"

end
