(* ===== verification/Managed_Results.thy ===== *)
theory Managed_Results
  imports Managed_Supervisor
begin

text \<open>
  What managed supervision keeps, reports and guarantees: the invariants of the two loops over
  the steps shared with captured executions, the agreement of the reported evidence with the
  calls that were made, and the end of supervision once cancellation was requested.
\<close>

section \<open>The invariant\<close>

definition reads_nothing :: "history \<Rightarrow> bool" where
  "reads_nothing h \<longleftrightarrow> (\<forall>e \<in> set h. \<forall>p. \<not> is_read p e)"

definition managed_ok :: "instant option \<Rightarrow> u32 \<Rightarrow> bool \<Rightarrow> supervised \<Rightarrow> bool" where
  "managed_ok dl pid sig s \<longleftrightarrow> supervised_ok dl pid sig s \<and> reads_nothing (ex_hist s)"

lemma reads_nothing_extends:
  "reads_nothing h \<Longrightarrow> extends P h h' \<Longrightarrow> (\<And>e p. P e \<Longrightarrow> \<not> is_read p e) \<Longrightarrow> reads_nothing h'"
  by (auto simp: reads_nothing_def extends_def list_all_iff)

lemma reads_nothing_views:
  assumes "reads_nothing h"
  shows "bytes_read p h = []" "\<not> eof_seen p h"
proof -
  have "extends (\<lambda>e. \<forall>p. \<not> is_read p e) [] h"
    using assms by (auto simp: extends_def list_all_iff reads_nothing_def)
  then have "bytes_read p h = bytes_read p [] \<and> eof_seen p h = eof_seen p []"
    by (blast dest: extends_unread)
  then show "bytes_read p h = []" "\<not> eof_seen p h" by simp_all
qed

lemma redirected_report_truthful:
  "reads_nothing h \<Longrightarrow> report_truthful policy p (redirected_report stream) h"
  by (simp add: report_truthful_def redirected_report_def redirected_stream_def reads_nothing_views)

lemma poll_cancel_eq:
  "poll_cancel E s =
     s\<lparr>ex_obs := (ex_obs s)\<lparr>cancelled := cancelled (ex_obs s) \<or> on_cancel_try E (ex_hist s) \<noteq> NoMessage\<rparr>,
       ex_hist := ex_hist s @ [EvCancelTry (on_cancel_try E (ex_hist s))]\<rparr>"
  by (cases "on_cancel_try E (ex_hist s)")
    (simp_all add: poll_cancel_def cancellation_received_def sys_cancel_try_def Let_def)

lemma await_cancel_eq:
  "await_cancel E wait s =
     s\<lparr>ex_obs := (ex_obs s)\<lparr>cancelled := cancelled (ex_obs s) \<or> on_cancel_wait E (ex_hist s) wait \<noteq> NoMessage\<rparr>,
       ex_hist := ex_hist s @ [EvCancelWait wait (on_cancel_wait E (ex_hist s) wait)]\<rparr>"
  by (cases "on_cancel_wait E (ex_hist s) wait")
    (simp_all add: await_cancel_def sys_cancel_wait_def Let_def)

lemma managed_ok_cancel:
  assumes "managed_ok dl pid sig s" and "neutral e" and "c \<longrightarrow> cancels e"
  shows "managed_ok dl pid sig
    (s\<lparr>ex_obs := (ex_obs s)\<lparr>cancelled := cancelled (ex_obs s) \<or> c\<rparr>, ex_hist := ex_hist s @ [e]\<rparr>)"
  using assms supervised_ok_cancel [of dl pid sig s e c]
  by (auto simp: managed_ok_def reads_nothing_def neutral_def)

lemma poll_cancel_ok: "managed_ok dl pid sig s \<Longrightarrow> managed_ok dl pid sig (poll_cancel E s)"
  unfolding poll_cancel_eq by (erule managed_ok_cancel) simp_all

lemma await_cancel_ok: "managed_ok dl pid sig s \<Longrightarrow> managed_ok dl pid sig (await_cancel E wait s)"
  unfolding await_cancel_eq by (erule managed_ok_cancel) simp_all

lemma managed_ok_neutral:
  "managed_ok dl pid sig s \<Longrightarrow> extends neutral (ex_hist s) h \<Longrightarrow> managed_ok dl pid sig (s\<lparr>ex_hist := h\<rparr>)"
  using supervised_ok_neutral [of dl pid sig s h] reads_nothing_extends [of "ex_hist s" neutral h]
  by (simp add: managed_ok_def neutral_def)

lemma managed_observe_ok: "managed_ok dl pid sig s \<Longrightarrow> managed_ok dl pid sig (observe E s)"
  using observe_ok [of dl pid sig s E] reads_nothing_extends [OF _ observe_history [of s E]]
  by (simp add: managed_ok_def)

lemma managed_check_deadline_ok:
  "managed_ok dl pid sig s \<Longrightarrow> managed_ok dl pid sig (check_deadline E dl s)"
  using check_deadline_ok [of dl pid sig s E] reads_nothing_extends [OF _ check_deadline_history [of s E dl]]
  by (simp add: managed_ok_def neutral_def)

section \<open>The supervision loop\<close>

definition managed_observed :: "os_env \<Rightarrow> instant option \<Rightarrow> supervised \<Rightarrow> supervised" where
  "managed_observed E dl s = check_deadline E dl (poll_cancel E (observe E s))"

lemma managed_observed_ok:
  "managed_ok dl pid sig s \<Longrightarrow> managed_ok dl pid sig (managed_observed E dl s)"
  by (simp add: managed_observed_def managed_observe_ok poll_cancel_ok managed_check_deadline_ok)

lemma managed_observed_frame:
  "has_child (ex_owned (managed_observed E dl s)) = has_child (ex_owned s)"
  "reap_failures (ex_obs (managed_observed E dl s)) = reap_failures (ex_obs s)"
  "length (ex_hist s) < length (ex_hist (managed_observed E dl s))"
proof -
  show "has_child (ex_owned (managed_observed E dl s)) = has_child (ex_owned s)"
    "reap_failures (ex_obs (managed_observed E dl s)) = reap_failures (ex_obs s)"
    by (simp_all add: managed_observed_def has_child_steps reap_failures_steps poll_cancel_eq)
  have "length (ex_hist s) < length (ex_hist (poll_cancel E (observe E s)))"
    using grows_length [OF extends_grows [OF observe_history [of s E]]] by (simp add: poll_cancel_eq)
  also have "\<dots> \<le> length (ex_hist (managed_observed E dl s))"
    unfolding managed_observed_def by (rule grows_length [OF check_deadline_grows])
  finally show "length (ex_hist s) < length (ex_hist (managed_observed E dl s))" .
qed

definition managed_supervising :: "instant option \<Rightarrow> u32 \<Rightarrow> supervised \<Rightarrow> bool" where
  "managed_supervising dl pid s \<longleftrightarrow>
     managed_ok dl pid False s \<and> has_child (ex_owned s) \<and> reap_failures (ex_obs s) = []"

definition managed_triggered :: "supervised \<Rightarrow> bool" where
  "managed_triggered s \<longleftrightarrow> settlement_triggered (ex_obs s) False False"

lemma managed_turn_Break:
  "managed_turn E dl s = Break r \<longleftrightarrow>
     managed_triggered (managed_observed E dl s) \<and> r = managed_observed E dl s"
  by (auto simp: managed_turn_def managed_observed_def managed_triggered_def Let_def split: prod.split)

lemma managed_turn_Continue:
  assumes "managed_turn E dl s = Continue s'"
  obtains wait where "\<not> managed_triggered (managed_observed E dl s)"
    "s' = await_cancel E wait ((managed_observed E dl s)\<lparr>ex_hist :=
       ex_hist (managed_observed E dl s) @ [EvNow (on_now E (ex_hist (managed_observed E dl s)))]\<rparr>)"
  using assms wait_quantum_hist [of E dl None "ex_hist (managed_observed E dl s)"]
  by (auto simp: managed_turn_def managed_observed_def managed_triggered_def Let_def
      split: if_splits prod.splits)

lemma managed_turn_keeps:
  assumes "managed_supervising dl pid s" and "managed_turn E dl s = Continue s'"
  shows "managed_supervising dl pid s'"
proof -
  from assms(2) obtain wait where s': "s' = await_cancel E wait ((managed_observed E dl s)\<lparr>ex_hist :=
       ex_hist (managed_observed E dl s) @ [EvNow (on_now E (ex_hist (managed_observed E dl s)))]\<rparr>)"
    by (rule managed_turn_Continue)
  have "managed_ok dl pid False s'"
    using assms(1) unfolding s' managed_supervising_def
    by (intro await_cancel_ok managed_ok_neutral managed_observed_ok) simp_all
  with assms(1) show ?thesis
    by (simp add: managed_supervising_def s' await_cancel_eq managed_observed_frame)
qed

lemma managed_turn_leaves:
  assumes "managed_supervising dl pid s" and "managed_turn E dl s = Break r"
  shows "managed_supervising dl pid r \<and> managed_triggered r"
  using assms by (auto simp: managed_turn_Break managed_supervising_def managed_observed_ok
      managed_observed_frame)

lemma managed_turn_grows:
  assumes "managed_turn E dl s = Continue s'"
  shows "length (ex_hist s) < length (ex_hist s')"
  using assms managed_observed_frame(3) [of s E dl]
  by (auto elim!: managed_turn_Continue simp: await_cancel_eq)

interpretation managed_supervision: loop_contract "managed_turn E dl" "managed_supervising dl pid"
    "\<lambda>s. managed_supervising dl pid s \<and> managed_triggered s"
  for E dl pid
  by unfold_locales (fact managed_turn_keeps managed_turn_leaves)+

section \<open>The cleanup loop\<close>

definition managed_cleaning :: "instant option \<Rightarrow> u32 \<Rightarrow> supervised \<Rightarrow> bool" where
  "managed_cleaning dl pid s \<longleftrightarrow> managed_ok dl pid True s \<and> reap_failures (ex_obs s) = []"

definition managed_cleaned :: "instant \<Rightarrow> supervised \<Rightarrow> bool" where
  "managed_cleaned cl s \<longleftrightarrow>
     \<not> has_child (ex_owned s) \<or> reap_failures (ex_obs s) \<noteq> [] \<or> (\<exists>t. EvNow t \<in> set (ex_hist s) \<and> cl \<le> t)"

definition managed_tick :: "os_env \<Rightarrow> supervised \<Rightarrow> supervised" where
  "managed_tick E s = s\<lparr>ex_hist := ex_hist s @ [EvNow (on_now E (ex_hist s))]\<rparr>"

definition managed_reap :: "os_env \<Rightarrow> supervised \<Rightarrow> bool \<times> supervised" where
  "managed_reap E s =
     (let s = observe E (managed_tick E s)
      in if leader_waitable (ex_obs s) then reap_step E s else (True, s))"

lemma managed_cleanup_turn_cases:
  "managed_cleanup_turn E cl s =
     (if \<not> has_child (ex_owned s) then Break s
      else if \<not> on_now E (ex_hist s) < cl then Break (managed_tick E s)
      else case managed_reap E s of
             (ok, s) \<Rightarrow>
               if \<not> ok then Break s
               else if has_child (ex_owned s)
               then Continue (await_cancel E
                      (min (saturating_duration_since cl (on_now E (ex_hist s))) event_quantum)
                      (managed_tick E s))
               else Continue s)"
  by (auto simp: managed_cleanup_turn_def managed_reap_def managed_tick_def sys_now_def Let_def
      split: prod.split bool.split)

lemma managed_tick_ok: "managed_ok dl pid sig s \<Longrightarrow> managed_ok dl pid sig (managed_tick E s)"
  unfolding managed_tick_def by (erule managed_ok_neutral) simp

lemma managed_reap_ok:
  assumes "managed_cleaning dl pid s" and "has_child (ex_owned s)" and "managed_reap E s = (ok, s')"
  shows "managed_ok dl pid True s'" "ok \<longleftrightarrow> reap_failures (ex_obs s') = []"
    "length (ex_hist s) < length (ex_hist s')"
proof -
  let ?s = "observe E (managed_tick E s)"
  have ok: "managed_ok dl pid True ?s" and held: "has_child (ex_owned ?s)"
    and clean: "reap_failures (ex_obs ?s) = []"
    using assms(1,2)
    by (simp_all add: managed_cleaning_def managed_observe_ok managed_tick_ok has_child_steps
        reap_failures_steps) (simp_all add: managed_tick_def)
  have longer: "length (ex_hist s) < length (ex_hist ?s)"
    using grows_length [OF extends_grows [OF observe_history [of "managed_tick E s" E]]]
    by (simp add: managed_tick_def)
  have "managed_ok dl pid True s' \<and> (ok \<longleftrightarrow> reap_failures (ex_obs s') = []) \<and>
      length (ex_hist s) < length (ex_hist s')"
  proof (cases "leader_waitable (ex_obs ?s)")
    case False
    with assms(3) ok clean longer show ?thesis by (simp add: managed_reap_def)
  next
    case True
    with assms(3) have step: "reap_step E ?s = (ok, s')" by (simp add: managed_reap_def)
    have "supervised_ok dl pid True ?s" using ok by (simp add: managed_ok_def)
    note R = reap_step_ok [OF this True held clean step]
    from R(4) obtain r where "ex_hist s' = ex_hist ?s @ [EvWait pid r]"
      by (metis supervised.simps(5) supervised.update_convs(5) supervised.select_convs(5) supervised.surjective)
    then show ?thesis
      using R(1,2) ok longer by (auto simp: managed_ok_def reads_nothing_def)
  qed
  then show "managed_ok dl pid True s'" "ok \<longleftrightarrow> reap_failures (ex_obs s') = []"
    "length (ex_hist s) < length (ex_hist s')" by simp_all
qed

lemma managed_cleanup_turn_Continue:
  assumes "managed_cleanup_turn E cl s = Continue s'"
  obtains t where "has_child (ex_owned s)" "on_now E (ex_hist s) < cl" "managed_reap E s = (True, t)"
    "s' = t \<or> (\<exists>wait. s' = await_cancel E wait (managed_tick E t))"
  using assms by (cases "managed_reap E s") (auto simp: managed_cleanup_turn_cases split: if_splits)

lemma managed_cleanup_turn_keeps:
  assumes "managed_cleaning dl pid s" and "managed_cleanup_turn E cl s = Continue s'"
  shows "managed_cleaning dl pid s'"
  using assms(2)
proof (rule managed_cleanup_turn_Continue)
  fix t
  assume held: "has_child (ex_owned s)" and t: "managed_reap E s = (True, t)"
    and s': "s' = t \<or> (\<exists>wait. s' = await_cancel E wait (managed_tick E t))"
  note R = managed_reap_ok [OF assms(1) held t]
  show ?thesis
    using s'
  proof
    assume "s' = t"
    with R show ?thesis by (simp add: managed_cleaning_def)
  next
    assume "\<exists>wait. s' = await_cancel E wait (managed_tick E t)"
    then obtain wait where eq: "s' = await_cancel E wait (managed_tick E t)" ..
    have "managed_ok dl pid True s'"
      unfolding eq by (intro await_cancel_ok managed_tick_ok R)
    with R show ?thesis
      by (simp add: managed_cleaning_def eq await_cancel_eq managed_tick_def)
  qed
qed

lemma managed_cleanup_turn_leaves:
  assumes "managed_cleaning dl pid s" and "managed_cleanup_turn E cl s = Break r"
  shows "managed_ok dl pid True r \<and> managed_cleaned cl r"
proof (cases "has_child (ex_owned s) \<and> on_now E (ex_hist s) < cl")
  case False
  then have "r = s \<and> \<not> has_child (ex_owned s) \<or> r = managed_tick E s \<and> \<not> on_now E (ex_hist s) < cl"
    using assms(2) by (auto simp: managed_cleanup_turn_cases split: if_splits)
  with assms(1) show ?thesis
    using managed_tick_ok [of dl pid True s E]
    by (auto simp: managed_cleaning_def managed_cleaned_def managed_tick_def)
next
  case True
  obtain ok t where t: "managed_reap E s = (ok, t)" by fastforce
  have "r = t \<and> \<not> ok"
    using assms(2) True t by (auto simp: managed_cleanup_turn_cases split: if_splits)
  with managed_reap_ok [OF assms(1) _ t] True show ?thesis
    by (auto simp: managed_cleaned_def)
qed

lemma managed_cleanup_turn_grows:
  assumes "managed_cleaning dl pid s" and "managed_cleanup_turn E cl s = Continue s'"
  shows "length (ex_hist s) < length (ex_hist s')" "on_now E (ex_hist s) < cl"
proof -
  from assms(2) obtain t where t: "has_child (ex_owned s)" "on_now E (ex_hist s) < cl"
    "managed_reap E s = (True, t)" "s' = t \<or> (\<exists>wait. s' = await_cancel E wait (managed_tick E t))"
    by (rule managed_cleanup_turn_Continue)
  show "on_now E (ex_hist s) < cl" by (rule t(2))
  show "length (ex_hist s) < length (ex_hist s')"
    using managed_reap_ok(3) [OF assms(1) t(1,3)] t(4)
    by (auto simp: await_cancel_eq managed_tick_def)
qed

interpretation managed_cleanup: terminating_loop "managed_cleanup_turn E cl"
    "\<lambda>s. paced k E \<and> managed_cleaning dl pid s"
    "\<lambda>s. managed_ok dl pid True s \<and> managed_cleaned cl s"
    "\<lambda>s. k * cl + 1 - length (ex_hist s)"
  for E cl k dl pid
proof (unfold_locales, goal_cases)
  case (1 s s')
  then show ?case by (auto dest: managed_cleanup_turn_keeps)
next
  case (2 s r)
  then show ?case using managed_cleanup_turn_leaves by blast
next
  case (3 s s')
  then have "length (ex_hist s) \<le> k * cl"
    using managed_cleanup_turn_grows(2) [of dl pid s E cl s'] paced_before [of k E "ex_hist s" cl] by blast
  with 3 managed_cleanup_turn_grows(1) [of dl pid s E cl s'] show ?case by simp
qed

interpretation managed_cleaning_contract: loop_contract "managed_cleanup_turn E cl"
    "managed_cleaning dl pid" "\<lambda>s. managed_ok dl pid True s \<and> managed_cleaned cl s"
  for E cl dl pid
  by unfold_locales (fact managed_cleanup_turn_keeps managed_cleanup_turn_leaves)+

section \<open>Cancellation ends supervision\<close>

text \<open>
  From some point on the cancel channel has a request, a message or a lost sender, for whoever
  has not received one yet.
\<close>

definition unheard :: "history \<Rightarrow> bool" where
  "unheard h \<longleftrightarrow> \<not> list_ex cancels h"

definition cancelled_by :: "nat \<Rightarrow> os_env \<Rightarrow> bool" where
  "cancelled_by n E \<longleftrightarrow> (\<forall>h. n \<le> length h \<longrightarrow> unheard h \<longrightarrow> on_cancel_try E h \<noteq> NoMessage)"

text \<open>The supervisor has not forgotten a request it received.\<close>

definition heeds :: "'a supervised_scheme \<Rightarrow> bool" where
  "heeds s \<longleftrightarrow> cancelled (ex_obs s) \<or> unheard (ex_hist s)"

lemma unheard_simps [simp]:
  "unheard []" "unheard (h @ h') \<longleftrightarrow> unheard h \<and> unheard h'" "unheard (e # h) \<longleftrightarrow> \<not> cancels e \<and> unheard h"
  by (auto simp: unheard_def)

lemma unheard_extends: "extends (\<lambda>e. \<not> cancels e) h h' \<Longrightarrow> unheard h' \<longleftrightarrow> unheard h"
  by (auto simp: extends_def unheard_def list_ex_iff list_all_iff)

lemma heeds_steps:
  "heeds (observe E s) \<longleftrightarrow> heeds s"
  "heeds (check_deadline E dl s) \<longleftrightarrow> heeds s"
  "heeds s \<Longrightarrow> heeds (poll_cancel E s)" "heeds s \<Longrightarrow> heeds (await_cancel E wait s)"
  "\<not> cancels e \<Longrightarrow> heeds (s\<lparr>ex_hist := ex_hist s @ [e]\<rparr>) \<longleftrightarrow> heeds s"
  by (auto simp: heeds_def observe_def observe_leader_def owned_leader_waitable_def sys_waitid_def
      check_deadline_def past_deadline_def sys_now_def Let_def poll_cancel_eq await_cancel_eq
      split: sum.split option.split)

lemma managed_turn_heeds:
  "heeds s \<Longrightarrow> managed_turn E dl s = Continue s' \<Longrightarrow> heeds s'"
  by (erule managed_turn_Continue) (simp add: heeds_steps managed_observed_def)

lemma cancel_descends:
  assumes "cancelled_by n E" and "heeds s" and "managed_turn E dl s = Continue s'"
  shows "n + 1 - length (ex_hist s') < n + 1 - length (ex_hist s)"
proof -
  let ?o = "observe E s"
  have "\<not> n \<le> length (ex_hist s)"
  proof
    assume "n \<le> length (ex_hist s)"
    also have "\<dots> \<le> length (ex_hist ?o)"
      by (rule grows_length [OF extends_grows [OF observe_history]])
    finally have "unheard (ex_hist ?o) \<Longrightarrow> on_cancel_try E (ex_hist ?o) \<noteq> NoMessage"
      using assms(1) by (simp add: cancelled_by_def)
    moreover have "heeds ?o" using assms(2) by (simp add: heeds_steps)
    ultimately have "cancelled (ex_obs (poll_cancel E ?o))"
      by (auto simp: heeds_def poll_cancel_eq)
    then have "managed_triggered (managed_observed E dl s)"
      by (simp add: managed_triggered_def settlement_triggered_def managed_observed_def
          check_deadline_def split: prod.split)
    with assms(3) show False by (blast elim: managed_turn_Continue)
  qed
  with managed_turn_grows [OF assms(3)] show ?thesis by simp
qed

interpretation cancelled_supervision: terminating_loop "managed_turn E dl"
    "\<lambda>s. cancelled_by n E \<and> heeds s \<and> managed_supervising dl pid s"
    "\<lambda>s. managed_supervising dl pid s \<and> managed_triggered s"
    "\<lambda>s. n + 1 - length (ex_hist s)"
  for E dl n pid
proof (unfold_locales, goal_cases)
  case (1 s s')
  then show ?case by (auto dest: managed_turn_keeps managed_turn_heeds)
next
  case (2 s r)
  then show ?case using managed_turn_leaves by blast
next
  case (3 s s')
  then show ?case using cancel_descends by blast
qed

end
