(* ===== verification/Managed_Executions.thy ===== *)
theory Managed_Executions
  imports Managed_Results
begin

text \<open>
  Whole managed invocations: what the supervisor thread has done when it ended, in the same
  terms as for captured executions.
\<close>

section \<open>Beginning\<close>

text \<open>A history before anything was spawned: nothing but neutral calls.\<close>

definition untouched :: "history \<Rightarrow> bool" where
  "untouched h \<longleftrightarrow> list_all neutral h"

lemma untouched_facts:
  assumes "untouched h"
  shows "phase_of h = NotSpawned" "reads_nothing h" "EvSpawn r \<notin> set h" "EvKill p k \<notin> set h"
proof -
  have "neutral e \<Longrightarrow> advance e NotSpawned = NotSpawned" for e
    by (cases "(e, NotSpawned)" rule: advance.cases) (auto simp: neutral_def)
  then have "fold advance es NotSpawned = NotSpawned" if "list_all neutral es" for es
    using that by (induction es) simp_all
  with assms show "phase_of h = NotSpawned" by (simp add: phase_of_def untouched_def)
  show "reads_nothing h" "EvSpawn r \<notin> set h" "EvKill p k \<notin> set h"
    using assms by (auto simp: untouched_def reads_nothing_def neutral_def list_all_iff)
qed

lemma managed_begin_Err:
  assumes "untouched h" and "managed_begin E pc h = (Err e, h')"
  shows "error_evidence e = None" "lifecycle_ok h'" "EvSpawn (Ok pid) \<notin> set h'" "EvKill p k \<notin> set h'"
  using assms(2) untouched_facts [OF assms(1)]
  by (auto simp: managed_begin_def start_background_reaper_def io_defs Let_def lifecycle_ok_def
      phase_of_append execution_deadline_def split: sum.splits prod.splits execution_policy.splits
      option.splits)

lemma managed_begin_Ok:
  assumes "untouched h" and "managed_begin E pc h = (Ok (su, started, dl, owned), h')"
  shows "managed_supervising dl (su_id su) (managed_initial owned h')"
    "execution_deadline (instant_limit E) (pc_execution pc) started = Ok dl"
    "EvNow started \<in> set h'" "EvSpawn (Ok (su_id su)) \<in> set h'"
    "su = \<lparr>su_id = su_id su, su_stdin = piped (sc_stdin (pc_command pc)) ChildStdin,
       su_stdout = piped (sc_stdout (pc_command pc)) ChildStdout,
       su_stderr = piped (sc_stderr (pc_command pc)) ChildStderr\<rparr>"
proof -
  obtain tr t pid where h': "h' = h @ [EvThread ''epitelesis-background-reaper'' tr, EvNow t, EvSpawn (Ok pid)]"
    and started: "started = t"
    and dl: "execution_deadline (instant_limit E) (pc_execution pc) t = Ok dl"
    and owned: "owned = \<lparr>oc_child = Some \<lparr>child_id = pid, child_stdin = None, child_stdout = None,
        child_stderr = None\<rparr>, oc_pgid = pid, oc_reaper = Some ReaperSender\<rparr>"
    and su: "su = \<lparr>su_id = pid, su_stdin = piped (sc_stdin (pc_command pc)) ChildStdin,
       su_stdout = piped (sc_stdout (pc_command pc)) ChildStdout,
       su_stderr = piped (sc_stderr (pc_command pc)) ChildStderr\<rparr>"
    using assms(2)
    by (auto simp: managed_begin_def start_background_reaper_def io_defs Let_def owned_new_def
        owned_id_def take_stdin_def take_stdout_def take_stderr_def spawned_child_def
        split: sum.splits prod.splits)
  note U = untouched_facts [OF assms(1)]
  have "phase_of h' = Live pid False False"
    using U(1) by (simp add: h' phase_of_append)
  then have "leader_ok pid False (managed_initial owned h')"
    by (simp add: leader_ok_def managed_initial_def owned owns_def has_child_def observations_default_def)
  then show "managed_supervising dl (su_id su) (managed_initial owned h')"
    using U(2)
    by (auto simp: managed_supervising_def managed_ok_def supervised_ok_def observed_ok_def su owned
        managed_initial_def observations_default_def has_child_def reads_nothing_def h')
  show "execution_deadline (instant_limit E) (pc_execution pc) started = Ok dl"
    "EvNow started \<in> set h'" "EvSpawn (Ok (su_id su)) \<in> set h'"
    "su = \<lparr>su_id = su_id su, su_stdin = piped (sc_stdin (pc_command pc)) ChildStdin,
       su_stdout = piped (sc_stdout (pc_command pc)) ChildStdout,
       su_stderr = piped (sc_stderr (pc_command pc)) ChildStderr\<rparr>"
    using dl started su by (simp_all add: h')
qed

section \<open>Conclusion\<close>

definition managed_evidence_of ::
  "instant \<Rightarrow> instant \<Rightarrow> group_signal_outcome \<Rightarrow> bool \<Rightarrow> leader_reap_disposition
     \<Rightarrow> failure_evidence list \<Rightarrow> supervised \<Rightarrow> lifecycle_evidence" where
  "managed_evidence_of started finished outcome unsettled d reaps s =
     \<lparr>leader_status = ex_status s, elapsed = Some (saturating_duration_since finished started),
      signal = outcome, reap = \<lparr>disposition = d, failures = reaps\<rparr>,
      le_stdout = redirected_report Stdout, le_stderr = redirected_report Stderr,
      cleanup =
        (if unsettled
         then CleanupIncomplete \<lparr>unfinished_streams = [], leader_unsettled = True,
                cleanup_budget = cleanup_budget_limit\<rparr>
         else CleanupComplete)\<rparr>"

lemma managed_conclude_eq:
  assumes "relinquish E (ex_reap s) (ex_owned s) (ex_obs s) (ex_hist s) = (d, o', obs, h)"
  shows "managed_conclude E pc started outcome s =
    (classify_managed (fst (choose_primary obs None None)) (pc_program pc)
       (execution_duration (pc_execution pc))
       (managed_evidence_of started (on_now E h) outcome (has_child (ex_owned s)) d (reap_failures obs) s),
     snd (drop_owned E o' (h @ [EvNow (on_now E h)])))"
proof -
  obtain p obs' where p: "choose_primary obs None None = (p, obs')" by fastforce
  then have "reap_failures obs' = reap_failures obs"
    using choose_primary_frame [of obs None None] by simp
  with p show ?thesis
    by (simp add: managed_conclude_def assms managed_evidence_of_def sys_now_def Let_def split: prod.split)
qed

lemma managed_evidence_truthful:
  assumes inv: "managed_ok dl pid True s"
    and rel: "relinquish E (ex_reap s) (ex_owned s) (ex_obs s) (ex_hist s) = (d, o', obs, h)"
    and fin: "h' = snd (drop_owned E o' (h @ [EvNow t]))"
    and kill: "EvKill pid r \<in> set (ex_hist s)"
  shows "evidence_truthful po pe pid h'
    (managed_evidence_of started t (signal_of r) (has_child (ex_owned s)) d (reap_failures obs) s)"
proof -
  have I: "leader_ok pid True s" "reads_nothing (ex_hist s)"
    using inv by (simp_all add: managed_ok_def supervised_ok_def)
  note R = relinquished [OF I(1) rel fin]
  have more: "set (ex_hist s) \<subseteq> set h'" by (rule extends_subset [OF R(2)])
  have quiet: "reads_nothing h'"
    by (rule reads_nothing_extends [OF I(2) R(2)]) simp
  have status: "ex_status s = Some st \<Longrightarrow> d = Reaped \<and> EvWait pid (Ok st) \<in> set h'" for st
    using R(3,4) I(1) more by (fastforce simp: leader_ok_def dest: subsetD)
  have "settlement_truthful pid h'
      (managed_evidence_of started t (signal_of r) (has_child (ex_owned s)) d (reap_failures obs) s)"
    using status R by (auto simp: settlement_truthful_def managed_evidence_of_def split: option.split)
  moreover have "cleanup_truthful
      (managed_evidence_of started t (signal_of r) (has_child (ex_owned s)) d (reap_failures obs) s)"
    using R(3) by (simp add: cleanup_truthful_def managed_evidence_of_def Let_def report_finished_def
        redirected_report_def redirected_stream_def)
  ultimately show ?thesis
    using redirected_report_truthful [OF quiet] kill more
    by (auto simp: evidence_truthful_def managed_evidence_of_def redirected_report_def)
qed

section \<open>The supervisor thread\<close>

lemma grows_append: "grows h h' \<Longrightarrow> grows h (h' @ es)"
  by (auto simp: extends_def list_all_iff)

interpretation managed_growth: loop_contract "managed_turn E dl"
    "\<lambda>s. grows h (ex_hist s)" "\<lambda>s. grows h (ex_hist s)"
  for E dl h
proof -
  have obs: "grows (ex_hist s) (ex_hist (managed_observed E dl s))" for s
  proof -
    have "grows (ex_hist s) (ex_hist (observe E s))"
      by (rule extends_grows [OF observe_history])
    also have "grows \<dots> (ex_hist (poll_cancel E (observe E s)))"
      by (simp add: poll_cancel_eq)
    also have "grows \<dots> (ex_hist (managed_observed E dl s))"
      unfolding managed_observed_def by (rule check_deadline_grows)
    finally show ?thesis .
  qed
  show "loop_contract (managed_turn E dl) (\<lambda>s. grows h (ex_hist s)) (\<lambda>s. grows h (ex_hist s))"
  proof (unfold_locales, goal_cases)
    case (1 s s')
    with obs [of s] have "grows h (ex_hist (managed_observed E dl s))" by (auto intro: extends_trans)
    with 1(2) show ?case
      by (auto elim!: managed_turn_Continue simp: await_cancel_eq intro: grows_append)
  next
    case (2 s r)
    with obs [of s] show ?case by (auto simp: managed_turn_Break intro: extends_trans)
  qed
qed

lemma managed_reap_grows: "grows (ex_hist s) (ex_hist (snd (managed_reap E s)))"
proof -
  let ?s = "observe E (managed_tick E s)"
  have "grows (ex_hist s) (ex_hist (managed_tick E s))" by (simp add: managed_tick_def)
  also have "grows \<dots> (ex_hist ?s)" by (rule extends_grows [OF observe_history])
  also have "grows \<dots> (ex_hist (snd (managed_reap E s)))"
    by (auto simp: managed_reap_def reap_step_def reap_waitable_def sys_wait_def Let_def
        split: sum.split prod.split option.split)
  finally show ?thesis .
qed

interpretation managed_cleanup_growth: loop_contract "managed_cleanup_turn E cl"
    "\<lambda>s. grows h (ex_hist s)" "\<lambda>s. grows h (ex_hist s)"
  for E cl h
proof (unfold_locales, goal_cases)
  case (1 s s')
  from 1(2) obtain t where "managed_reap E s = (True, t)"
    and s': "s' = t \<or> (\<exists>wait. s' = await_cancel E wait (managed_tick E t))"
    by (rule managed_cleanup_turn_Continue)
  with managed_reap_grows [of s E] 1(1) have "grows h (ex_hist t)" by (auto intro: extends_trans)
  with s' show ?case
    by (auto simp: await_cancel_eq managed_tick_def intro: grows_append)
next
  case (2 s r)
  obtain ok t where t: "managed_reap E s = (ok, t)" by fastforce
  with managed_reap_grows [of s E] 2(1) have "grows h (ex_hist t)" by (auto intro: extends_trans)
  with 2 t show ?case
    by (auto simp: managed_cleanup_turn_cases managed_tick_def intro: extends_snoc split: if_splits)
qed

lemma managed_finish_Some:
  assumes "managed_supervising dl pid s" and "managed_finish E pc started s = Some (r, h)"
  obtains cl kr t where "managed_ok dl pid True t" "managed_cleaned cl t" "grows (ex_hist s) (ex_hist t)"
    "EvKill pid kr \<in> set (ex_hist t)" "managed_conclude E pc started (signal_of kr) t = (r, h)"
proof -
  obtain cl outcome s' where sig: "signal_exec E s = (cl, outcome, s')"
    by (cases "signal_exec E s") auto
  have inv: "supervised_ok dl pid False s" "has_child (ex_owned s)" "reads_nothing (ex_hist s)"
    "reap_failures (ex_obs s) = []"
    using assms(1) by (simp_all add: managed_supervising_def managed_ok_def)
  note S = signal_exec_ok [OF inv(1,2) sig]
  obtain kr t0 where kr: "outcome = signal_of kr"
    and s': "s' = s\<lparr>ex_hist := ex_hist s @ [EvNow t0, EvKill pid kr]\<rparr>"
    using S(2) by auto
  have clean: "managed_cleaning dl pid s'"
    using S(1) inv(3,4) by (simp add: managed_cleaning_def managed_ok_def reads_nothing_def s')
  from assms(2) sig obtain t where t: "run_loop (managed_cleanup_turn E cl) s' = Some t"
    and res: "managed_conclude E pc started outcome t = (r, h)"
    by (auto simp: managed_finish_def)
  have "managed_ok dl pid True t \<and> managed_cleaned cl t"
    using managed_cleaning_contract.result [OF t clean] .
  moreover have g: "grows (ex_hist s') (ex_hist t)"
    using managed_cleanup_growth.result [OF t] by simp
  moreover have "grows (ex_hist s) (ex_hist t)"
    using grows_append [OF extends_refl, of "ex_hist s" "[EvNow t0, EvKill pid kr]"] g
    by (auto simp: s' intro: extends_trans)
  moreover have "EvKill pid kr \<in> set (ex_hist t)"
    using extends_subset [OF g] by (auto simp: s')
  ultimately show ?thesis
    using that res kr by blast
qed

lemma supervise_managed_Some:
  assumes start: "managed_supervising dl pid (managed_initial owned h0)"
    and dl: "execution_deadline (instant_limit E) (pc_execution pc) started = Ok dl"
    and seen: "EvNow started \<in> set h0"
    and run: "supervise_managed E pc owned dl started h0 = Some (r, h)"
  obtains obs ev where
    "r = classify_managed (fst (choose_primary obs None None)) (pc_program pc)
       (execution_duration (pc_execution pc)) ev"
    "lifecycle_ok h" "set h0 \<subseteq> set h" "\<And>po pe. evidence_truthful po pe pid h ev"
    "cancelled obs \<Longrightarrow> \<exists>e \<in> set h. cancels e"
    "deadline_elapsed obs \<Longrightarrow> \<exists>d started t. pc_execution pc = Deadline d \<and>
       EvNow started \<in> set h \<and> EvNow t \<in> set h \<and> started + d \<le> t"
proof -
  from run obtain s1 where s1: "run_loop (managed_turn E dl) (managed_initial owned h0) = Some s1"
    and fin: "managed_finish E pc started s1 = Some (r, h)"
    by (auto simp: supervise_managed_def bind_eq_Some_conv)
  have "managed_supervising dl pid s1"
    using managed_supervision.result [OF s1 start] by simp
  then obtain cl kr s where s: "managed_ok dl pid True s" "grows (ex_hist s1) (ex_hist s)"
    "EvKill pid kr \<in> set (ex_hist s)" "managed_conclude E pc started (signal_of kr) s = (r, h)"
    using fin by (rule managed_finish_Some)
  have "grows h0 (ex_hist s1)"
    using managed_growth.result [OF s1, of h0] by (simp add: managed_initial_def)
  then have g: "set h0 \<subseteq> set (ex_hist s)"
    using s(2) extends_subset extends_trans by blast
  obtain d o' obs h1 where rel:
    "relinquish E (ex_reap s) (ex_owned s) (ex_obs s) (ex_hist s) = (d, o', obs, h1)"
    by (cases "relinquish E (ex_reap s) (ex_owned s) (ex_obs s) (ex_hist s)") auto
  define t where "t = on_now E h1"
  define ev where
    "ev = managed_evidence_of started t (signal_of kr) (has_child (ex_owned s)) d (reap_failures obs) s"
  have r: "r = classify_managed (fst (choose_primary obs None None)) (pc_program pc)
      (execution_duration (pc_execution pc)) ev"
    and h: "h = snd (drop_owned E o' (h1 @ [EvNow t]))"
    using s(4) managed_conclude_eq [OF rel, of pc started "signal_of kr"] by (simp_all add: ev_def t_def)
  have I: "leader_ok pid True s" "observed_ok dl s"
    using s(1) by (simp_all add: managed_ok_def supervised_ok_def)
  note R = relinquished [OF I(1) rel h]
  have more: "set (ex_hist s) \<subseteq> set h" by (rule extends_subset [OF R(2)])
  have truth: "evidence_truthful po pe pid h ev" for po pe
    unfolding ev_def by (rule managed_evidence_truthful [OF s(1) rel h s(3)])
  have canc: "\<exists>e \<in> set h. cancels e" if "cancelled obs"
    using that R(10) I(2) more by (auto simp: observed_ok_def)
  have late: "\<exists>d started t. pc_execution pc = Deadline d \<and>
       EvNow started \<in> set h \<and> EvNow t \<in> set h \<and> started + d \<le> t" if "deadline_elapsed obs"
  proof -
    from that R(11) I(2) obtain v t where v: "dl = Some v" "EvNow t \<in> set (ex_hist s)" "v \<le> t"
      by (auto simp: observed_ok_def)
    with dl obtain d where "pc_execution pc = Deadline d" "v = started + d"
      by (auto simp: execution_deadline_Ok split: execution_policy.splits)
    with v seen g more show ?thesis by blast
  qed
  show ?thesis
    by (rule that [of obs ev]) (use r R(1) g more truth canc late in auto)
qed

text \<open>A supervisor whose caller is gone signals the group and gives the child away.\<close>

lemma abandoned_startup:
  assumes "managed_supervising dl pid (managed_initial owned h)"
    and "owned_signal_group E owned (h @ [EvStartup b]) = (r, h1)"
    and "handoff_to_background_reaper E owned h1 = (r', o', h2)"
  shows "lifecycle_ok (snd (drop_owned E o' h2))"
proof -
  have own: "owns owned False False h" and held: "has_child owned"
    using assms(1)
    by (simp_all add: managed_supervising_def managed_ok_def supervised_ok_def leader_ok_def
        managed_initial_def observations_default_def)
  have "owns owned False False (h @ [EvStartup b])"
    using own by (rule owner.spec_call) simp
  from owns_signal [OF this held, of E] have "owns owned False True h1"
    using assms(2) by (auto simp: signal_group_def split: sum.splits if_splits)
  then show ?thesis
    using assms(3) by (rule owner.retire_accepted)
qed

lemma abandoned_startup_attended:
  assumes "managed_supervising dl pid (managed_initial owned h)"
    and "owned_signal_group E owned (h @ [EvStartup b]) = (r, h1)"
    and "handoff_to_background_reaper E owned h1 = (r', o', h2)"
  shows "attended pid (snd (drop_owned E o' h2))" "set h \<subseteq> set (snd (drop_owned E o' h2))"
proof -
  have I: "leader_ok pid False (managed_initial owned h)" and held: "has_child owned"
    using assms(1) by (simp_all add: managed_supervising_def managed_ok_def supervised_ok_def managed_initial_def)
  obtain c rp where c: "oc_child owned = Some c" "child_id c = pid" "oc_pgid owned = pid" "oc_reaper owned = Some rp"
    using I held by (auto simp: leader_ok_def managed_initial_def owns_def has_child_def split: option.splits)
  have h1: "h1 = h @ [EvStartup b, EvKill pid (on_kill E (h @ [EvStartup b]) pid)]"
    using assms(2) c by (auto simp: owned_signal_group_def sys_kill_def Let_def)
  have h2: "h2 = h1 @ [EvHandOff pid (on_handoff E h1 pid)]"
    using assms(3) c by (auto simp: handoff_to_background_reaper_def sys_handoff_def Let_def split: if_splits)
  have sub: "set h2 \<subseteq> set (snd (drop_owned E o' h2))"
    by (auto simp: drop_owned_def handoff_to_background_reaper_def sys_kill_def sys_handoff_def Let_def
        split: option.splits prod.splits)
  then show "set h \<subseteq> set (snd (drop_owned E o' h2))" using h1 h2 by auto
  from sub show "attended pid (snd (drop_owned E o' h2))"
    unfolding attended_def h2 h1 by auto
qed

lemma launch_managed_result:
  assumes "launch_managed E pc = (m, Some (res, h))"
  obtains (refused) e where "m = Err e" "res = None" "error_evidence e = None" "lifecycle_ok h"
    "\<And>pid. EvSpawn (Ok pid) \<notin> set h" "\<And>pid k. EvKill pid k \<notin> set h"
  | (abandoned) su where "m = Ok su" "res = None" "lifecycle_ok h" "attended (su_id su) h"
    "EvSpawn (Ok (su_id su)) \<in> set h"
  | (settled) su r obs ev where "m = Ok su" "res = Some r"
    "r = classify_managed (fst (choose_primary obs None None)) (pc_program pc)
       (execution_duration (pc_execution pc)) ev"
    "lifecycle_ok h" "EvSpawn (Ok (su_id su)) \<in> set h"
    "\<And>po pe. evidence_truthful po pe (su_id su) h ev"
    "cancelled obs \<Longrightarrow> \<exists>e \<in> set h. cancels e"
    "deadline_elapsed obs \<Longrightarrow> \<exists>d started t. pc_execution pc = Deadline d \<and>
       EvNow started \<in> set h \<and> EvNow t \<in> set h \<and> started + d \<le> t"
proof -
  let ?tr = "on_thread E [] ''epitelesis-managed-supervisor''"
  let ?h0 = "[EvThread ''epitelesis-managed-supervisor'' ?tr]"
  have U: "untouched ?h0" by (simp add: untouched_def)
  show ?thesis
  proof (cases ?tr)
    case (Inl e)
    then have "m = Err (SupervisorStartFailed (pc_program pc) e)" "res = None" "h = ?h0"
      using assms by (simp_all add: launch_managed_def sys_thread_def Let_def)
    with U show ?thesis
      using untouched_facts [OF U]
      by (intro refused [of "SupervisorStartFailed (pc_program pc) e"]) (simp_all add: lifecycle_ok_def)
  next
    case (Inr u)
    then have run: "receive_startup (pc_program pc) (StartupMessage (fst (managed_supervisor E pc ?h0))) = m"
      "snd (managed_supervisor E pc ?h0) = Some (res, h)"
      using assms by (auto simp: launch_managed_def sys_thread_def Let_def split: prod.splits)
    show ?thesis
    proof (cases "managed_begin E pc ?h0")
      case (Pair b h1)
      show ?thesis
      proof (cases b)
        case (Inl e)
        with Pair have beg: "managed_begin E pc ?h0 = (Err e, h1)" by simp
        note B = managed_begin_Err [OF U beg]
        have "m = Err e" "res = None" "h = h1 @ [EvStartup (on_startup E h1)]"
          using run beg by (auto simp: managed_supervisor_def receive_startup_def sys_startup_def Let_def)
        with B show ?thesis
          by (intro refused) (auto simp: lifecycle_ok_def view_simps)
      next
        case (Inr v)
        obtain su started dl owned where v: "v = (su, started, dl, owned)" by (cases v)
        with Pair Inr have beg: "managed_begin E pc ?h0 = (Ok (su, started, dl, owned), h1)" by simp
        note B = managed_begin_Ok [OF U beg]
        have m: "m = Ok su"
          using run(1) beg by (simp add: managed_supervisor_def receive_startup_def)
        let ?h2 = "h1 @ [EvStartup (on_startup E h1)]"
        show ?thesis
        proof (cases "on_startup E h1")
          case False
          obtain r hk where k: "owned_signal_group E owned ?h2 = (r, hk)" by fastforce
          obtain r' o' hh where hh: "handoff_to_background_reaper E owned hk = (r', o', hh)"
            by (cases "handoff_to_background_reaper E owned hk") auto
          have "res = None" "h = snd (drop_owned E o' hh)"
            using run(2) beg False k hh by (auto simp: managed_supervisor_def sys_startup_def Let_def)
          with m abandoned_startup [OF B(1) k hh] abandoned_startup_attended [OF B(1) k hh] B(4)
          show ?thesis by (intro abandoned) auto
        next
          case True
          have start: "managed_supervising dl (su_id su) (managed_initial owned ?h2)"
            using managed_ok_neutral [of dl "su_id su" False "managed_initial owned h1" ?h2] B(1)
            by (simp add: managed_supervising_def managed_initial_def)
          obtain r where r: "supervise_managed E pc owned dl started ?h2 = Some (r, h)" "res = Some r"
            using run(2) beg True by (auto simp: managed_supervisor_def sys_startup_def Let_def)
          from B(3) have "EvNow started \<in> set ?h2" by simp
          from start B(2) this r(1) show ?thesis
          proof (rule supervise_managed_Some, goal_cases)
            case (1 obs ev)
            with m r(2) B(4) show ?case by (intro settled [of su r obs ev]) auto
          qed
        qed
      qed
    qed
  qed
qed

section \<open>Supervisors end\<close>

lemma managed_deadline_descends:
  assumes "paced k E" and "managed_turn E (Some v) s = Continue s'"
  shows "k * v + 1 - length (ex_hist s') < k * v + 1 - length (ex_hist s)"
proof -
  let ?t = "poll_cancel E (observe E s)"
  from assms(2) have "\<not> managed_triggered (managed_observed E (Some v) s)"
    by (rule managed_turn_Continue)
  then have "on_now E (ex_hist ?t) < v"
    by (auto simp: managed_observed_def check_deadline_def past_deadline_def sys_now_def
        managed_triggered_def settlement_triggered_def Let_def)
  with assms(1) have "length (ex_hist ?t) \<le> k * v" by (rule paced_before)
  moreover have "length (ex_hist s) \<le> length (ex_hist ?t)"
    using grows_length [OF extends_grows [OF observe_history [of s E]]] by (simp add: poll_cancel_eq)
  ultimately show ?thesis
    using managed_turn_grows [OF assms(2)] by simp
qed

interpretation managed_deadline: terminating_loop "managed_turn E (Some v)"
    "\<lambda>s. paced k E \<and> managed_supervising (Some v) pid s"
    "\<lambda>s. managed_supervising (Some v) pid s \<and> managed_triggered s"
    "\<lambda>s. k * v + 1 - length (ex_hist s)"
  for E v k pid
proof (unfold_locales, goal_cases)
  case (1 s s')
  then show ?case by (auto dest: managed_turn_keeps)
next
  case (2 s r)
  then show ?case using managed_turn_leaves by blast
next
  case (3 s s')
  then show ?case using managed_deadline_descends by blast
qed

lemma managed_begin_unheard: "managed_begin E pc h = (Ok v, h') \<Longrightarrow> unheard h' \<longleftrightarrow> unheard h"
  by (auto simp: managed_begin_def start_background_reaper_def io_defs Let_def
      split: sum.splits prod.splits)

lemma supervise_managed_returns:
  assumes "paced k E" and "managed_supervising dl pid (managed_initial owned h)"
    and "dl \<noteq> None \<or> cancelled_by n E" and "unheard h"
  shows "\<exists>r. supervise_managed E pc owned dl started h = Some r"
proof -
  have "\<exists>s1. run_loop (managed_turn E dl) (managed_initial owned h) = Some s1"
  proof (cases dl)
    case (Some v)
    with assms show ?thesis
      using managed_deadline.returns [of k E v pid "managed_initial owned h"] by blast
  next
    case None
    moreover have "heeds (managed_initial owned h)"
      using assms(4) by (simp add: heeds_def managed_initial_def)
    ultimately show ?thesis
      using assms cancelled_supervision.returns [of n E "managed_initial owned h" dl pid] by blast
  qed
  then obtain s1 where s1: "run_loop (managed_turn E dl) (managed_initial owned h) = Some s1" ..
  then have "managed_supervising dl pid s1"
    using managed_supervision.result [OF s1 assms(2)] by simp
  moreover obtain cl outcome s' where sig: "signal_exec E s1 = (cl, outcome, s')"
    by (cases "signal_exec E s1") auto
  ultimately have "paced k E \<and> managed_cleaning dl pid s'"
    using assms(1) signal_exec_ok [of dl pid s1 E cl outcome s']
    by (auto simp: managed_supervising_def managed_ok_def managed_cleaning_def reads_nothing_def)
  from managed_cleanup.returns [OF this] obtain t where "run_loop (managed_cleanup_turn E cl) s' = Some t"
    by blast
  with s1 sig show ?thesis
    by (simp add: supervise_managed_def managed_finish_def)
qed

lemma launch_managed_ends:
  assumes "paced k E" and "(\<exists>d. pc_execution pc = Deadline d) \<or> cancelled_by n E"
  shows "snd (launch_managed E pc) \<noteq> None"
proof -
  let ?tr = "on_thread E [] ''epitelesis-managed-supervisor''"
  let ?h0 = "[EvThread ''epitelesis-managed-supervisor'' ?tr]"
  have U: "untouched ?h0" by (simp add: untouched_def)
  have "snd (managed_supervisor E pc ?h0) \<noteq> None"
  proof (cases "managed_begin E pc ?h0")
    case (Pair b h1)
    show ?thesis
    proof (cases b)
      case (Inl e)
      with Pair show ?thesis by (simp add: managed_supervisor_def)
    next
      case (Inr v)
      obtain su started dl owned where v: "v = (su, started, dl, owned)" by (cases v)
      with Pair Inr have beg: "managed_begin E pc ?h0 = (Ok (su, started, dl, owned), h1)" by simp
      note B = managed_begin_Ok [OF U beg]
      let ?h2 = "h1 @ [EvStartup (on_startup E h1)]"
      have "managed_supervising dl (su_id su) (managed_initial owned ?h2)"
        using managed_ok_neutral [of dl "su_id su" False "managed_initial owned h1" ?h2] B(1)
        by (simp add: managed_supervising_def managed_initial_def)
      moreover have "dl \<noteq> None \<or> cancelled_by n E"
        using assms(2) B(2) by (auto simp: execution_deadline_Ok split: execution_policy.splits)
      moreover have "unheard ?h2"
        using managed_begin_unheard [OF beg] by simp
      ultimately have "\<exists>r. supervise_managed E pc owned dl started ?h2 = Some r"
        using supervise_managed_returns [OF assms(1)] by blast
      then show ?thesis
        using beg by (auto simp: managed_supervisor_def sys_startup_def Let_def split: prod.split)
    qed
  qed
  then show ?thesis
    by (auto simp: launch_managed_def sys_thread_def Let_def split: sum.split prod.split)
qed

section \<open>Launches\<close>

lemma spawn_managed_cases:
  assumes "spawn_managed E t parent sc = (m, Some (res, h))"
  obtains (refused) e where "m = Err e" "res = None" "error_evidence e = None" "lifecycle_ok h"
    "\<And>pid. EvSpawn (Ok pid) \<notin> set h" "\<And>pid k. EvKill pid k \<notin> set h"
  | (abandoned) su where "m = Ok su" "res = None" "lifecycle_ok h" "attended (su_id su) h"
    "EvSpawn (Ok (su_id su)) \<in> set h"
  | (settled) su r obs ev where "m = Ok su" "res = Some r"
    "r = classify_managed (fst (choose_primary obs None None))
       (PathDisplay (c_program (streaming_inner sc)))
       (execution_duration (execution (c_state (streaming_inner sc)))) ev"
    "lifecycle_ok h" "EvSpawn (Ok (su_id su)) \<in> set h"
    "\<And>po pe. evidence_truthful po pe (su_id su) h ev"
    "cancelled obs \<Longrightarrow> \<exists>e \<in> set h. cancels e"
    "deadline_elapsed obs \<Longrightarrow> \<exists>d started t. execution (c_state (streaming_inner sc)) = Deadline d \<and>
       EvNow started \<in> set h \<and> EvNow t \<in> set h \<and> started + d \<le> t"
proof (cases "prepare t parent (streaming_inner sc)")
  case (Inl e)
  with assms have "m = Err e" "res = None" "h = []" by (simp_all add: spawn_managed_def)
  with prepare_Err [OF Inl] show ?thesis
    by (intro refused) (auto simp: lifecycle_ok_def)
next
  case (Inr pc)
  then have pc: "pc_execution pc = execution (c_state (streaming_inner sc))"
    "pc_program pc = PathDisplay (c_program (streaming_inner sc))" and sup: "backend_supported t"
    by (simp_all add: prepare_Ok)
  from Inr sup assms have "launch_managed E pc = (m, Some (res, h))" by (simp add: spawn_managed_def)
  then show ?thesis
  proof (cases rule: launch_managed_result)
    case (refused e)
    then show ?thesis by (rule that(1))
  next
    case (abandoned su)
    then show ?thesis by (rule that(2))
  next
    case (settled su r obs ev)
    then show ?thesis unfolding pc by (rule that(3))
  qed
qed

lemma spawn_managed_settles:
  assumes "spawn_managed E t parent sc = (m, Some (res, h))"
  shows "settles h"
  using assms
proof (cases rule: spawn_managed_cases)
  case (refused e)
  then show ?thesis by (intro settles_unspawned)
next
  case (abandoned su)
  then show ?thesis by (intro settles_spawned)
next
  case (settled su r obs ev)
  then show ?thesis by (meson settles_spawned truthful_attended)
qed

lemma spawn_managed_ends:
  assumes "paced k E"
    and "(\<exists>d. execution (c_state (streaming_inner sc)) = Deadline d) \<or> cancelled_by n E"
  shows "snd (spawn_managed E t parent sc) \<noteq> None"
proof (cases "prepare t parent (streaming_inner sc)")
  case (Inl e)
  then show ?thesis by (simp add: spawn_managed_def)
next
  case (Inr pc)
  then have "pc_execution pc = execution (c_state (streaming_inner sc))" "backend_supported t"
    by (simp_all add: prepare_Ok)
  with Inr assms launch_managed_ends [OF assms(1), of pc n] show ?thesis
    by (simp add: spawn_managed_def)
qed

lemma classify_managed_Timeout:
  "classify_managed p program d ev = Err (Timeout program' d' ev') \<Longrightarrow> p = PrimaryDeadline \<and> d = Some d' \<and> ev' = ev"
  by (auto simp: classify_managed_def classify_exit_def split: primary.splits option.splits if_splits)

lemma classify_managed_Cancelled:
  "classify_managed p program d ev = Err (Cancelled program' ev') \<Longrightarrow> p = PrimaryCancelled \<and> ev' = ev"
  by (auto simp: classify_managed_def classify_exit_def split: primary.splits option.splits if_splits)

end
