(* ===== verification/Managed_Child.thy ===== *)
theory Managed_Child
  imports Managed_Executions
begin

text \<open>
  The handle of a managed child (\<open>managed.rs\<close>): its operations over the channels it shares with
  the supervisor thread, and the interleavings of the two as a step relation. An operation runs
  until it would block and is then a suspended task; what it did to the channels before that,
  such as sending a cancellation, is visible to the thread while it is suspended.
\<close>

section \<open>The handle and the channels\<close>

type_synonym terminal_result = "epi_error + managed_output"

datatype managed_poll = Running | Exited managed_output | Failed epi_error

record managed_child =
  mc_id :: u32
  mc_stdin :: "pipe option"
  mc_stdout :: "pipe option"
  mc_stderr :: "pipe option"
  mc_supervisor :: bool \<comment> \<open>the join handle is still held\<close>
  mc_result :: "terminal_result option"

text \<open>
  The two channels and the thread: the result slot, the messages on the cancel channel, whether
  its sender still exists, and how the thread ended. \<open>lk_sent\<close> remembers what the thread sent.
\<close>

record managed_link =
  lk_slot :: "terminal_result option"
  lk_sent :: "terminal_result option"
  lk_ended :: "bool option" \<comment> \<open>\<open>Some\<close> whether it panicked\<close>
  lk_cancels :: nat
  lk_sender :: bool

definition new_link :: managed_link where
  "new_link = \<lparr>lk_slot = None, lk_sent = None, lk_ended = None, lk_cancels = 0, lk_sender = True\<rparr>"

definition new_managed_child :: "managed_startup \<Rightarrow> managed_child" where
  "new_managed_child su =
     \<lparr>mc_id = su_id su, mc_stdin = su_stdin su, mc_stdout = su_stdout su, mc_stderr = su_stderr su,
      mc_supervisor = True, mc_result = None\<rparr>"

text \<open>Spawning a managed child, and the streaming command's method of that effect.\<close>

definition managed_spawn ::
  "os_env \<Rightarrow> target \<Rightarrow> parent_env \<Rightarrow> streaming_command
     \<Rightarrow> (epi_error + managed_child) \<times> ((epi_error + managed_output) option \<times> history) option" where
  "managed_spawn E t parent sc =
     (case spawn_managed E t parent sc of
        (Err e, thread) \<Rightarrow> (Err e, thread)
      | (Ok su, thread) \<Rightarrow> (Ok (new_managed_child su), thread))"

definition streaming_spawn ::
  "os_env \<Rightarrow> target \<Rightarrow> parent_env \<Rightarrow> streaming_command
     \<Rightarrow> (epi_error + managed_child) \<times> ((epi_error + managed_output) option \<times> history) option" where
  "streaming_spawn E t parent sc = managed_spawn E t parent sc"

text \<open>Receiving from the result channel, without and with blocking, and joining the thread.\<close>

datatype received = Delivered terminal_result | ChannelClosed | StillEmpty

definition try_recv :: "managed_link \<Rightarrow> received \<times> managed_link" where
  "try_recv lk =
     (case lk_slot lk of
        Some r \<Rightarrow> (Delivered r, lk\<lparr>lk_slot := None\<rparr>)
      | None \<Rightarrow> (if lk_ended lk = None then StillEmpty else ChannelClosed, lk))"

text \<open>
  A task has finished, with an answer, or is suspended until the thread has sent its result or
  has ended; it then goes on from the state of the channels at that time.
\<close>

datatype wait_for = ForResult | ForThread

definition can_resume :: "wait_for \<Rightarrow> managed_link \<Rightarrow> bool" where
  "can_resume w lk \<longleftrightarrow>
     (case w of
        ForResult \<Rightarrow> lk_slot lk \<noteq> None \<or> lk_ended lk \<noteq> None
      | ForThread \<Rightarrow> lk_ended lk \<noteq> None)"

datatype 'a task =
  Finished 'a managed_link
| Suspended wait_for managed_link "managed_link \<Rightarrow> 'a task"

primrec and_then :: "'a task \<Rightarrow> ('a \<Rightarrow> managed_link \<Rightarrow> 'b task) \<Rightarrow> 'b task" where
  "and_then (Finished a lk) f = f a lk"
| "and_then (Suspended w lk k) f = Suspended w lk (\<lambda>lk. and_then (k lk) f)"

primrec task_link :: "'a task \<Rightarrow> managed_link" where
  "task_link (Finished a lk) = lk"
| "task_link (Suspended w lk k) = lk"

definition block_on :: "wait_for \<Rightarrow> (managed_link \<Rightarrow> 'a task) \<Rightarrow> managed_link \<Rightarrow> 'a task" where
  "block_on w k lk = (if can_resume w lk then k lk else Suspended w lk k)"

definition recv :: "managed_link \<Rightarrow> terminal_result option task" where
  "recv lk =
     block_on ForResult
       (\<lambda>lk. case try_recv lk of
          (Delivered r, lk) \<Rightarrow> Finished (Some r) lk
        | (_, lk) \<Rightarrow> Finished None lk) lk"

text \<open>Joining tells whether the thread panicked.\<close>

definition join_thread :: "managed_link \<Rightarrow> bool task" where
  "join_thread lk = block_on ForThread (\<lambda>lk. Finished (lk_ended lk = Some True) lk) lk"

definition send_cancel :: "managed_link \<Rightarrow> managed_link" where
  "send_cancel lk = lk\<lparr>lk_cancels := Suc (lk_cancels lk)\<rparr>"

section \<open>Operations\<close>

definition channel_failure :: "managed_child \<Rightarrow> string \<Rightarrow> epi_error" where
  "channel_failure c message =
     SupervisionFailed (ManagedChildLabel (mc_id c)) (io_other message) unknown_evidence"

definition channel_closed :: string where
  "channel_closed = ''managed supervisor result channel closed''"

definition managed_child_id :: "managed_child \<Rightarrow> u32" where
  "managed_child_id c = mc_id c"

definition take_child_stdin :: "managed_child \<Rightarrow> pipe option \<times> managed_child" where
  "take_child_stdin c = (mc_stdin c, c\<lparr>mc_stdin := None\<rparr>)"

definition take_child_stdout :: "managed_child \<Rightarrow> pipe option \<times> managed_child" where
  "take_child_stdout c = (mc_stdout c, c\<lparr>mc_stdout := None\<rparr>)"

definition take_child_stderr :: "managed_child \<Rightarrow> pipe option \<times> managed_child" where
  "take_child_stderr c = (mc_stderr c, c\<lparr>mc_stderr := None\<rparr>)"

definition receive_nonblocking :: "managed_child \<Rightarrow> managed_link \<Rightarrow> managed_child \<times> managed_link" where
  "receive_nonblocking c lk =
     (if mc_result c \<noteq> None then (c, lk)
      else (case try_recv lk of
              (Delivered r, lk) \<Rightarrow> (c\<lparr>mc_result := Some r\<rparr>, lk)
            | (StillEmpty, lk) \<Rightarrow> (c, lk)
            | (ChannelClosed, lk) \<Rightarrow>
                (c\<lparr>mc_result := Some (Err (channel_failure c channel_closed))\<rparr>, lk)))"

definition poll :: "managed_child \<Rightarrow> managed_link \<Rightarrow> managed_poll \<times> managed_child \<times> managed_link" where
  "poll c lk =
     (case receive_nonblocking c lk of
        (c, lk) \<Rightarrow>
          (case mc_result c of
             Some (Ok out) \<Rightarrow> Exited out
           | Some (Err e) \<Rightarrow> Failed e
           | None \<Rightarrow> Running, c, lk))"

text \<open>Joining blocks until the thread has ended, and converts a late panic.\<close>

definition join_after_result :: "managed_child \<Rightarrow> managed_link \<Rightarrow> managed_child task" where
  "join_after_result c lk =
     (if \<not> mc_supervisor c then Finished c lk
      else (let c = c\<lparr>mc_supervisor := False\<rparr> in
            and_then (join_thread lk)
              (\<lambda>panicked.
                 Finished
                   (if panicked then
                      (case mc_result c of
                         Some (Ok out) \<Rightarrow>
                           c\<lparr>mc_result := Some (Err (SupervisionFailed (ManagedChildLabel (mc_id c))
                                (io_other ''managed supervisor panicked'') (mo_evidence out)))\<rparr>
                       | _ \<Rightarrow> c)
                    else c))))"

definition receive_blocking :: "managed_child \<Rightarrow> managed_link \<Rightarrow> managed_child task" where
  "receive_blocking c lk =
     and_then
       (if mc_result c = None then
          and_then (recv lk)
            (\<lambda>received. Finished (c\<lparr>mc_result := Some
               (case received of
                  Some r \<Rightarrow> r
                | None \<Rightarrow> Err (channel_failure c channel_closed))\<rparr>))
        else Finished c lk)
       join_after_result"

definition wait_inner :: "managed_child \<Rightarrow> managed_link \<Rightarrow> (terminal_result \<times> managed_child) task" where
  "wait_inner c lk =
     (let (_, c) = take_child_stdin c
      in and_then (receive_blocking c lk)
           (\<lambda>c. Finished
              (case mc_result c of
                 Some r \<Rightarrow> (r, c\<lparr>mc_result := None\<rparr>)
               | None \<Rightarrow> (Err (channel_failure c channel_closed), c))))"

text \<open>
  \<open>Drop\<close>, and the end of the cancel sender that goes with the handle. Dropping a join handle
  leaves the thread to itself: nothing here is suspended.
\<close>

definition drop_managed :: "managed_child \<Rightarrow> managed_link \<Rightarrow> unit task" where
  "drop_managed c lk =
     (let lk =
        (if \<not> mc_supervisor c then lk
         else if mc_result c = None then send_cancel lk
         else lk)
      in Finished () (lk\<lparr>lk_sender := False\<rparr>))"

definition wait :: "managed_child \<Rightarrow> managed_link \<Rightarrow> terminal_result task" where
  "wait c lk =
     and_then (wait_inner c lk)
       (\<lambda>(r, c) lk. and_then (drop_managed c lk) (\<lambda>_. Finished r))"

definition debug_managed_child :: "managed_child \<Rightarrow> debug_tree" where
  "debug_managed_child c =
     (let available = (\<lambda>p. debug_option DQuoted (map_option (\<lambda>_. ''available'') p))
      in DStruct ''ManagedChild''
           [(''id'', DNumber (unat (mc_id c))),
            (''stdin'', available (mc_stdin c)),
            (''stdout'', available (mc_stdout c)),
            (''stderr'', available (mc_stderr c)),
            (''settled'', DName (if mc_result c \<noteq> None then ''true'' else ''false''))])"

definition cancellation_settled :: "lifecycle_evidence \<Rightarrow> bool" where
  "cancellation_settled ev \<longleftrightarrow>
     cleanup ev = CleanupComplete \<and> (signal ev = Sent \<or> signal ev = AlreadyGone) \<and>
     disposition (reap ev) = Reaped \<and> failures (reap ev) = []"

text \<open>What \<open>cancel\<close> makes of the terminal result.\<close>

definition cancel_result :: "terminal_result \<Rightarrow> epi_error + lifecycle_evidence" where
  "cancel_result r =
     (case r of
        Ok out \<Rightarrow> Ok (mo_evidence out)
      | Err (Cancelled program ev) \<Rightarrow>
          if cancellation_settled ev then Ok ev else Err (Cancelled program ev)
      | Err e \<Rightarrow> Err e)"

definition cancel :: "managed_child \<Rightarrow> managed_link \<Rightarrow> (epi_error + lifecycle_evidence) task" where
  "cancel c lk =
     and_then (wait_inner c (send_cancel lk))
       (\<lambda>(r, c) lk. and_then (drop_managed c lk) (\<lambda>_. Finished (cancel_result r)))"

section \<open>Interleavings of the handle and the supervisor thread\<close>

text \<open>The calls that consume the handle, with their answers.\<close>

datatype request = AskWait | AskCancel | AskDrop

datatype reply =
  WaitReply terminal_result
| CancelReply "epi_error + lifecycle_evidence"
| DropReply

fun call :: "request \<Rightarrow> managed_child \<Rightarrow> managed_link \<Rightarrow> reply task" where
  "call AskWait c lk = and_then (wait c lk) (\<lambda>r. Finished (WaitReply r))"
| "call AskCancel c lk = and_then (cancel c lk) (\<lambda>a. Finished (CancelReply a))"
| "call AskDrop c lk = and_then (drop_managed c lk) (\<lambda>_. Finished DropReply)"

text \<open>The owner of the handle is between calls, inside one that is suspended, or done with it.\<close>

datatype party =
  Idle managed_child
| Calling request wait_for "managed_link \<Rightarrow> reply task"
| Gone

datatype action =
  SupervisorSends terminal_result
| SupervisorEnds bool
| Polls managed_poll
| TakesPipe
| Blocks request
| Returns reply

type_synonym world = "party \<times> managed_link"

inductive step :: "world \<Rightarrow> action \<Rightarrow> world \<Rightarrow> bool" where
  sends: "lk_ended lk = None \<Longrightarrow> lk_sent lk = None \<Longrightarrow>
    step (w, lk) (SupervisorSends r) (w, lk\<lparr>lk_slot := Some r, lk_sent := Some r\<rparr>)"
| ends: "lk_ended lk = None \<Longrightarrow> step (w, lk) (SupervisorEnds p) (w, lk\<lparr>lk_ended := Some p\<rparr>)"
| polls: "poll c lk = (p, c', lk') \<Longrightarrow> step (Idle c, lk) (Polls p) (Idle c', lk')"
| takes_stdin: "take_child_stdin c = (x, c') \<Longrightarrow> step (Idle c, lk) TakesPipe (Idle c', lk)"
| takes_stdout: "take_child_stdout c = (x, c') \<Longrightarrow> step (Idle c, lk) TakesPipe (Idle c', lk)"
| takes_stderr: "take_child_stderr c = (x, c') \<Longrightarrow> step (Idle c, lk) TakesPipe (Idle c', lk)"
| returns: "call q c lk = Finished r lk' \<Longrightarrow> step (Idle c, lk) (Returns r) (Gone, lk')"
| blocks: "call q c lk = Suspended w lk' k \<Longrightarrow> step (Idle c, lk) (Blocks q) (Calling q w k, lk')"
| resumes: "can_resume w lk \<Longrightarrow> k lk = Finished r lk' \<Longrightarrow>
    step (Calling q w k, lk) (Returns r) (Gone, lk')"
| blocks_again: "can_resume w lk \<Longrightarrow> k lk = Suspended w' lk' k' \<Longrightarrow>
    step (Calling q w k, lk) (Blocks q) (Calling q w' k', lk')"

inductive_cases stepE: "step (w, lk) a (w', lk')"
inductive_cases idle_stepE: "step (Idle c, lk) a (w', lk')"
inductive_cases calling_stepE: "step (Calling q w k, lk) a (w', lk')"
inductive_cases gone_stepE: "step (Gone, lk) a (w', lk')"

text \<open>A run from a fresh handle, with the actions it took.\<close>

inductive managed_run :: "managed_startup \<Rightarrow> action list \<Rightarrow> world \<Rightarrow> bool" for su where
  begin_run: "managed_run su [] (Idle (new_managed_child su), new_link)"
| next_run: "managed_run su as W \<Longrightarrow> step W a W' \<Longrightarrow> managed_run su (as @ [a]) W'"

end
