(* ===== verification/Adapters.thy ===== *)
theory Adapters
  imports Managed_Child
begin

text \<open>
  The public entry points over the shared supervisor: the synchronous adapters of \<open>sync.rs\<close>,
  and the guard of \<open>async_impl.rs\<close> with what the future does when its worker has ended.
\<close>

section \<open>Synchronous adapters\<close>

text \<open>A default token is shared with nobody, so nothing ever sets it.\<close>

definition default_token :: "os_env \<Rightarrow> os_env" where
  "default_token E = E\<lparr>on_cancelled := \<lambda>_. False\<rparr>"

type_synonym 'a outcome = "((epi_error + 'a) \<times> history) option"

definition run :: "os_env \<Rightarrow> target \<Rightarrow> parent_env \<Rightarrow> ready command \<Rightarrow> run_output outcome" where
  "run E t parent c = execute (default_token E) t parent c"

definition keep_non_zero :: "epi_error + run_output \<Rightarrow> epi_error + run_output" where
  "keep_non_zero r =
     (case r of
        Ok out \<Rightarrow> Ok out
      | Err (NonZeroExit program ev) \<Rightarrow>
          (case leader_status ev of
             Some st \<Rightarrow> Ok (output_new st ev)
           | None \<Rightarrow>
               Err (SupervisionFailed (LabelText ''output invocation'')
                 (io_other ''non-zero output did not contain a leader status'') ev))
      | Err e \<Rightarrow> Err e)"

definition invoke_output :: "os_env \<Rightarrow> target \<Rightarrow> parent_env \<Rightarrow> ready command \<Rightarrow> run_output outcome" where
  "invoke_output E t parent c = map_option (map_prod keep_non_zero id) (run E t parent c)"

definition invoke_status :: "os_env \<Rightarrow> target \<Rightarrow> parent_env \<Rightarrow> ready command \<Rightarrow> exit_status outcome" where
  "invoke_status E t parent c = map_option (map_prod (map_sum id out_status) id) (invoke_output E t parent c)"

text \<open>The same entry points as methods of the commands they consume.\<close>

definition command_output :: "os_env \<Rightarrow> target \<Rightarrow> parent_env \<Rightarrow> ready command \<Rightarrow> run_output outcome" where
  "command_output E t parent c = invoke_output E t parent c"

definition command_status :: "os_env \<Rightarrow> target \<Rightarrow> parent_env \<Rightarrow> ready command \<Rightarrow> exit_status outcome" where
  "command_status E t parent c = invoke_status E t parent c"

section \<open>The asynchronous adapter\<close>

text \<open>
  The shared token (\<open>Cancellation\<close>) is a flag that is only ever set. The future holds a guard;
  the worker's outcome is its result or a join error with a message. Dropping the guard sets
  the token while it is armed.
\<close>

definition cancellation_cancel :: "bool \<Rightarrow> bool" where
  "cancellation_cancel token = True"

definition cancellation_is_cancelled :: "bool \<Rightarrow> bool" where
  "cancellation_is_cancelled token = token"

record cancel_on_drop =
  armed :: bool

datatype worker_outcome = Joined "epi_error + run_output" | JoinFailed string

definition drop_guard :: "cancel_on_drop \<Rightarrow> bool \<Rightarrow> bool" where
  "drop_guard g token = (if armed g then cancellation_cancel token else token)"

definition spawn_guard :: cancel_on_drop where
  "spawn_guard = \<lparr>armed = True\<rparr>"

text \<open>The future resumed after its await, to its value and the token after the guard is dropped.\<close>

definition spawn_resume :: "worker_outcome \<Rightarrow> bool \<Rightarrow> (epi_error + run_output) \<times> bool" where
  "spawn_resume w token =
     (case w of
        JoinFailed message \<Rightarrow>
          (Err (SupervisionFailed (LabelText ''asynchronous supervisor'') (io_other message)
             unknown_evidence), drop_guard spawn_guard token)
      | Joined r \<Rightarrow> (r, drop_guard (spawn_guard\<lparr>armed := False\<rparr>) token))"

section \<open>Lemmas\<close>

lemma default_token_never [simp]: "on_cancelled (default_token E) h = False"
  by (simp add: default_token_def)

lemma drop_guard_simps [simp]:
  "drop_guard spawn_guard token" "drop_guard (spawn_guard\<lparr>armed := False\<rparr>) token = token"
  by (simp_all add: drop_guard_def spawn_guard_def cancellation_cancel_def)

end
