(* ===== verification/Timing.thy ===== *)
theory Timing
  imports Executions
begin

text \<open>
  How long an invocation can take. A run is charged for its calls: each call costs at most a
  fixed scheduling margin on top of the wait it asked for, and every step of the supervisor has
  a budget of calls and of waiting. Adding the budgets up bounds the time between the start and
  the end of an invocation with a deadline, which is what \<open>CLEANUP_ALLOWANCE\<close> promises callers.
\<close>

section \<open>Costs\<close>

text \<open>The wait a call asks for.\<close>

fun requested_wait :: "event \<Rightarrow> duration" where
  "requested_wait (EvPoll _ d _) = d"
| "requested_wait (EvSleep d) = d"
| "requested_wait (EvCancelWait d _) = d"
| "requested_wait _ = 0"

text \<open>
  A machine on which no call takes longer than it was asked to wait plus a margin: the clock
  read after a call is at most that much later than the clock read before it.
\<close>

definition prompt :: "duration \<Rightarrow> os_env \<Rightarrow> bool" where
  "prompt margin E \<longleftrightarrow>
     (\<forall>h e. on_now E (h @ [e]) \<le> on_now E h + requested_wait e + margin)"

text \<open>\<open>h'\<close> extends \<open>h\<close> by at most \<open>n\<close> calls that ask to wait for at most \<open>w\<close> altogether.\<close>

definition costs :: "nat \<Rightarrow> duration \<Rightarrow> history \<Rightarrow> history \<Rightarrow> bool" where
  "costs n w h h' \<longleftrightarrow>
     (\<exists>es. h' = h @ es \<and> length es \<le> n \<and> sum_list (map requested_wait es) \<le> w)"

lemma costs_refl [simp, intro]: "costs n w h h"
  by (simp add: costs_def)

lemma costs_one [simp]: "costs (Suc n) w h (h @ [e]) \<longleftrightarrow> requested_wait e \<le> w"
  by (simp add: costs_def)

lemma costs_trans: "costs n w h h' \<Longrightarrow> costs m v h' h'' \<Longrightarrow> costs (n + m) (w + v) h h''"
  unfolding costs_def by (elim exE conjE, rule_tac x = "es @ esa" in exI) simp

lemma costs_mono: "costs n w h h' \<Longrightarrow> n \<le> m \<Longrightarrow> w \<le> v \<Longrightarrow> costs m v h h'"
  by (fastforce simp: costs_def)

lemma costs_snoc: "costs n w h h' \<Longrightarrow> requested_wait e = 0 \<Longrightarrow> costs (Suc n) w h (h' @ [e])"
  using costs_trans [of n w h h' 1 0 "h' @ [e]"] by simp

text \<open>The time a piece of a run takes.\<close>

lemma costs_time:
  assumes "prompt margin E" and "costs n w h h'"
  shows "on_now E h' \<le> on_now E h + w + n * margin"
proof -
  have "on_now E (h @ es) \<le> on_now E h + sum_list (map requested_wait es) + length es * margin" for es
  proof (induction es rule: rev_induct)
    case (snoc e es)
    have "on_now E ((h @ es) @ [e]) \<le> on_now E (h @ es) + requested_wait e + margin"
      using assms(1) by (simp add: prompt_def del: append_assoc)
    with snoc show ?case by simp
  qed simp
  moreover obtain es where "h' = h @ es" "length es \<le> n" "sum_list (map requested_wait es) \<le> w"
    using assms(2) by (auto simp: costs_def)
  moreover from this have "length es * margin \<le> n * margin" by simp
  ultimately show ?thesis by (meson add_mono le_trans order_refl)
qed

section \<open>The cost of every step\<close>

named_theorems step_costs \<open>what the steps of a supervisor cost\<close>

lemma observe_cost [step_costs]: "costs 1 0 (ex_hist s) (ex_hist (observe E s))"
  by (auto simp: observe_def observe_leader_def owned_leader_waitable_def sys_waitid_def Let_def
      costs_def split: sum.split prod.split)

lemma check_cancelled_cost [step_costs]: "costs 1 0 (ex_hist s) (ex_hist (check_cancelled E s))"
  by (simp add: check_cancelled_hist)

lemma check_deadline_cost [step_costs]: "costs 1 0 (ex_hist s) (ex_hist (check_deadline E dl s))"
  by (auto simp: check_deadline_def past_deadline_def sys_now_def Let_def costs_def split: option.split)

lemma reap_step_cost [step_costs]: "costs 1 0 (ex_hist s) (ex_hist (snd (reap_step E s)))"
  by (auto simp: reap_step_def reap_waitable_def sys_wait_def Let_def costs_def
      split: sum.split prod.split option.split)

lemma reap_leader_cost [step_costs]: "costs 1 0 (ex_hist s) (ex_hist (snd (reap_leader E s)))"
  using reap_step_cost [of s E] by (simp add: reap_leader_def)

lemma handoff_cost [step_costs]: "costs 1 0 h (snd (snd (handoff_to_background_reaper E o' h)))"
  by (auto simp: handoff_to_background_reaper_def sys_handoff_def Let_def costs_def split: option.split)

lemma relinquish_cost [step_costs]: "costs 1 0 h (snd (snd (snd (relinquish E d o' obs h))))"
  using handoff_cost [of h E o'] by (auto simp: relinquish_def split: sum.split prod.split)

lemma drop_owned_cost [step_costs]: "costs 2 0 h (snd (drop_owned E o' h))"
proof -
  have "costs (1 + 1) (0 + 0) h (snd (snd (handoff_to_background_reaper E o' (h @ [EvKill p r]))))" for p r
    by (rule costs_trans [OF _ handoff_cost]) simp
  then have "costs 2 0 h (snd (snd (handoff_to_background_reaper E o' (h @ [EvKill p r]))))" for p r
    by (simp add: numeral_2_eq_2)
  then show ?thesis
    by (auto simp: drop_owned_def sys_kill_def Let_def split: prod.split) (metis snd_conv)
qed

lemma signal_exec_cost:
  "signal_exec E s = (cl, outcome, s') \<Longrightarrow>
   costs 2 0 (ex_hist s) (ex_hist s') \<and> on_now E (ex_hist s) \<le> cl \<and>
   cl \<le> on_now E (ex_hist s) + cleanup_budget_limit"
  by (auto simp: signal_exec_def cleanup_deadline_def sys_now_def signal_group_of Let_def costs_def
      checked_add_def split: option.splits prod.splits if_splits)

lemma retain_cost: "costs 1 0 h (snd (retain E chunk s h))"
  by (auto simp: retain_def sys_reserve_def Let_def costs_def split: capture_storage.split)

lemma pump_cost: "costs (2 * n) 0 h (snd (pump E n s h))"
proof (induction E n s h rule: pump.induct)
  case (2 E n s h)
  show ?case
  proof (cases "cap_pipe s")
    case (Some p)
    obtain r where r: "sys_read E p read_chunk h = (r, h @ [EvRead p read_chunk r])"
      by (simp add: sys_read_def Let_def)
    let ?h = "h @ [EvRead p read_chunk r]"
    show ?thesis
    proof (cases r)
      case (Inl e)
      have "costs (2 * Suc n) 0 h (snd (pump E n s ?h))" if "io_kind e = Interrupted"
        using costs_trans [of 2 0 h ?h "2 * n" 0] 2(1) [OF Some r [symmetric] Inl that]
        by (simp add: numeral_2_eq_2)
      with Some r Inl show ?thesis by simp
    next
      case (Inr chunk)
      obtain s' h' where s': "retain E chunk s ?h = (s', h')" by fastforce
      have "costs (2 * Suc n) 0 h (snd (pump E n s' h'))" if "chunk \<noteq> []"
      proof -
        have "costs (1 + 1) (0 + 0) h h'"
          using retain_cost [of ?h E chunk s] s' by (intro costs_trans [of 1 0 h ?h]) simp_all
        from costs_trans [OF this 2(2) [OF Some r [symmetric] Inr that s' [symmetric]]]
        show ?thesis by simp
      qed
      with Some r Inr s' show ?thesis by simp
    qed
  qed simp
qed simp

lemma pump_fair_cost: "costs 32 0 h (snd (snd (snd (pump_fair E out err a b first h))))"
proof -
  have one: "costs 16 0 h (snd (if a then pump E chunks_per_stream_turn s h else (s, h)))" for a s h
    using pump_cost [of chunks_per_stream_turn h E s] by (simp add: chunks_per_stream_turn_def)
  have two: "costs 32 0 h h2"
    if "(if a then pump E chunks_per_stream_turn s h else (s, h)) = (s1, h1)"
      "(if b then pump E chunks_per_stream_turn t h1 else (t, h1)) = (t2, h2)" for a b s s1 h1 t t2 h2
    using costs_trans [of 16 0 h h1 16 0 h2] one [of h a s] one [of h1 b t] that by simp
  let ?run = "\<lambda>ready s h. if ready then pump E chunks_per_stream_turn s h else (s, h)"
  obtain s1 h1 where 1: "?run (if first then a else b) (if first then out else err) h = (s1, h1)"
    by (meson surj_pair)
  obtain t2 h2 where 2: "?run (if first then b else a) (if first then err else out) h1 = (t2, h2)"
    by (meson surj_pair)
  have "snd (snd (snd (pump_fair E out err a b first h))) = h2"
    using 1 2 by (cases first; cases a; cases b) (simp_all add: pump_fair_def)
  with two [OF 1 2] show ?thesis by simp
qed

lemma poll_streams_cost: "costs 1 wait h (snd (poll_streams E out err wait h))"
  by (auto simp: poll_streams_def sys_poll_def sys_sleep_def subsec_nanos_def Let_def costs_def
      split: option.split)

lemma serve_streams_cost: "costs 33 wait (ex_hist s) (ex_hist (serve_streams E wait s))"
proof -
  obtain r h where p: "poll_streams E (ex_stdout s) (ex_stderr s) wait (ex_hist s) = (r, h)"
    by fastforce
  have 1: "costs 1 wait (ex_hist s) h"
    using poll_streams_cost [of wait "ex_hist s" E "ex_stdout s" "ex_stderr s"] p by simp
  have 2: "costs 33 wait (ex_hist s) (snd (snd (snd (pump_fair E out err a b first h))))"
    for out err a b first
    using costs_trans [OF 1 pump_fair_cost] by simp
  show ?thesis
  proof (cases r)
    case (Inl e)
    with costs_mono [OF 1, of 33 wait] show ?thesis by (simp add: serve_streams_def p)
  next
    case (Inr ready)
    then show ?thesis
      using 2 [of "ex_stdout s" "ex_stderr s" "fst ready" "snd ready" "ex_stdout_first s"]
      by (auto simp: serve_streams_def p split: prod.split)
  qed
qed

section \<open>Turns\<close>

lemma observed_cost: "costs 3 0 (ex_hist s) (ex_hist (observed E dl s))"
  unfolding observed_def
  using costs_trans [OF costs_trans [OF observe_cost [of s E] check_cancelled_cost [of _ E]]
      check_deadline_cost [of _ E dl]] by (simp add: numeral_eq_Suc)

lemma cleanup_observed_cost: "costs 4 0 (ex_hist s) (ex_hist (cleanup_observed E dl s))"
proof -
  let ?s = "s\<lparr>ex_hist := ex_hist s @ [EvNow (on_now E (ex_hist s))]\<rparr>"
  have "costs 1 0 (ex_hist s) (ex_hist ?s)" by simp
  from costs_trans [OF costs_trans [OF costs_trans [OF this check_cancelled_cost [of _ E]]
        check_deadline_cost [of _ E dl]] observe_cost [of _ E]]
  show ?thesis by (simp add: cleanup_observed_def numeral_eq_Suc)
qed

text \<open>The wait of a turn ends no later than the instant it is bounded by.\<close>

lemma wait_quantum_until:
  assumes "deadline = Some v \<or> cleanup_at = Some v"
  shows "on_now E h + fst (wait_quantum E deadline cleanup_at h) \<le> max v (on_now E h)"
  using assms
  by (auto simp: wait_quantum_def sys_now_def saturating_duration_since_def Let_def split: option.split)

text \<open>
  A turn that serves the streams: from the clock reading that chose the wait, it ends at most
  34 margins after the instant that bounds the wait.
\<close>

lemma serve_time:
  assumes "prompt m E" and "wait_quantum E dl cl (ex_hist s) = (wait, h)"
    and "dl = Some v \<or> cl = Some v"
  shows "on_now E (ex_hist (serve_streams E wait (s\<lparr>ex_hist := h\<rparr>)))
    \<le> max v (on_now E (ex_hist s)) + 34 * m"
proof -
  have h: "h = ex_hist s @ [EvNow (on_now E (ex_hist s))]"
    using wait_quantum_hist [of E dl cl "ex_hist s"] assms(2) by simp
  then have "costs 1 0 (ex_hist s) h" by simp
  from costs_trans [OF this] serve_streams_cost [of wait "s\<lparr>ex_hist := h\<rparr>" E]
  have "costs 34 wait (ex_hist s) (ex_hist (serve_streams E wait (s\<lparr>ex_hist := h\<rparr>)))"
    by fastforce
  from costs_time [OF assms(1) this] wait_quantum_until [OF assms(3), of E "ex_hist s"] assms(2)
  show ?thesis by simp
qed

section \<open>The supervision loop\<close>

lemma supervise_turn_time:
  assumes "prompt m E"
  shows "supervise_turn E (Some v) s = Continue s' \<Longrightarrow> on_now E (ex_hist s') \<le> v + 35 * m"
    and "supervise_turn E (Some v) s = Break s' \<Longrightarrow> on_now E (ex_hist s') \<le> on_now E (ex_hist s) + 3 * m"
proof -
  let ?t = "check_cancelled E (observe E s)"
  assume run: "supervise_turn E (Some v) s = Continue s'"
  then have "\<not> exec_triggered (observed E (Some v) s)" by (rule supervise_turn_Continue)
  then have "on_now E (ex_hist ?t) < v"
    by (auto simp: observed_def check_deadline_def past_deadline_def sys_now_def exec_triggered_def
        settlement_triggered_def Let_def)
  moreover have "on_now E (ex_hist (observed E (Some v) s)) \<le> on_now E (ex_hist ?t) + m"
    using costs_time [OF assms check_deadline_cost [of ?t E "Some v"]] by (simp add: observed_def)
  moreover obtain wait h where w: "wait_quantum E (Some v) None (ex_hist (observed E (Some v) s)) = (wait, h)"
    by fastforce
  moreover from this run have "s' = serve_streams E wait ((observed E (Some v) s)\<lparr>ex_hist := h\<rparr>)"
    by (auto simp: supervise_turn_cases Let_def split: if_splits)
  ultimately show "on_now E (ex_hist s') \<le> v + 35 * m"
    using serve_time [OF assms w] by simp
next
  assume "supervise_turn E (Some v) s = Break s'"
  then show "on_now E (ex_hist s') \<le> on_now E (ex_hist s) + 3 * m"
    using costs_time [OF assms observed_cost [of s E "Some v"]] by (auto simp: supervise_turn_Break)
qed

interpretation timely_supervision: loop_contract "supervise_turn E (Some v)"
    "\<lambda>s. prompt m E \<and> on_now E (ex_hist s) \<le> v + 35 * m"
    "\<lambda>s. on_now E (ex_hist s) \<le> v + 38 * m"
  for E v m
  by unfold_locales (use supervise_turn_time in \<open>fastforce\<close>)+

section \<open>The cleanup loop\<close>

lemma cleanup_turn_time:
  assumes "prompt m E"
  shows "cleanup_turn E dl cl s = Continue s' \<Longrightarrow> on_now E (ex_hist s') \<le> cl + 39 * m"
    and "cleanup_turn E dl cl s = Break s' \<Longrightarrow>
      on_now E (ex_hist s') \<le> max (on_now E (ex_hist s) + m) (cl + 5 * m)"
proof -
  obtain ok t where t: "reap_leader E (cleanup_observed E dl s) = (ok, t)" by fastforce
  from costs_trans [OF cleanup_observed_cost [of s E dl] reap_leader_cost [of _ E]] t
  have "costs 5 0 (ex_hist s) (ex_hist t)" by simp
  note reaped = costs_time [OF assms this]
  obtain wait h where w: "wait_quantum E None (Some cl) (ex_hist t) = (wait, h)" by fastforce
  {
    assume "cleanup_turn E dl cl s = Continue s'"
    then have "on_now E (ex_hist s) < cl" "s' = serve_streams E wait (t\<lparr>ex_hist := h\<rparr>)"
      using t w by (auto simp: cleanup_turn_cases split: if_splits)
    with reaped serve_time [OF assms w] show "on_now E (ex_hist s') \<le> cl + 39 * m" by simp
  next
    assume run: "cleanup_turn E dl cl s = Break s'"
    show "on_now E (ex_hist s') \<le> max (on_now E (ex_hist s) + m) (cl + 5 * m)"
    proof (cases "on_now E (ex_hist s) < cl")
      case True
      with run t w have "s' = t" by (auto simp: cleanup_turn_cases split: if_splits)
      with True reaped show ?thesis by simp
    next
      case False
      have "costs 1 0 (ex_hist s) (ex_hist s @ [EvNow (on_now E (ex_hist s))])" by simp
      from costs_time [OF assms this] False run show ?thesis by (auto simp: cleanup_turn_cases)
    qed
  }
qed

interpretation timely_cleaning: loop_contract "cleanup_turn E dl cl"
    "\<lambda>s. prompt m E \<and> on_now E (ex_hist s) \<le> cl + 39 * m"
    "\<lambda>s. on_now E (ex_hist s) \<le> cl + 40 * m"
  for E dl cl m
  by unfold_locales (use cleanup_turn_time in \<open>fastforce\<close>)+

section \<open>Whole executions\<close>

lemma make_nonblocking_cost: "costs 2 0 h (snd (make_nonblocking E s h))"
  by (auto simp: make_nonblocking_def sys_getfl_def sys_setfl_def Let_def costs_def
      split: option.split sum.split)

lemma begin_exec_time:
  assumes "prompt m E" and "begin_exec E pc h = (Ok (started, dl, s), h')"
  shows "on_now E (ex_hist s) \<le> started + 6 * m"
proof -
  define h1 where "h1 = snd (start_background_reaper E (pc_program pc) h)"
  define r where "r = on_spawn E (h1 @ [EvNow (on_now E h1)]) (pc_command pc)"
  define p q where "p = stream_new Stdout (child_stdout (spawned_child (pc_command pc) (projr r))) (pc_stdout_capture pc)"
    and "q = stream_new Stderr (child_stderr (spawned_child (pc_command pc) (projr r))) (pc_stderr_capture pc)"
  obtain u where thread: "start_background_reaper E (pc_program pc) h = (Ok u, h1)"
    using assms(2) by (auto simp: begin_exec_def h1_def split: sum.splits prod.splits)
  have started: "started = on_now E h1"
    and dl: "execution_deadline (instant_limit E) (pc_execution pc) started = Ok dl"
    using assms(2) thread by (auto simp: begin_exec_def sys_now_def Let_def split: sum.splits prod.splits)
  obtain pid where r: "r = Ok pid"
    using assms(2) thread dl started
    by (auto simp: begin_exec_def sys_now_def sys_spawn_def r_def Let_def split: sum.splits prod.splits)
  obtain out h2 err h3 where mk: "make_nonblocking E p (h1 @ [EvNow started, EvSpawn r]) = (out, h2)"
    "make_nonblocking E q h2 = (err, h3)"
    by fastforce
  then have "ex_hist s = h3"
    using assms(2) thread dl started r
    by (auto simp: begin_exec_def sys_now_def sys_spawn_def r_def p_def q_def Let_def owned_new_def
        take_stdin_def take_stdout_def take_stderr_def spawned_child_def)
  with mk have s: "ex_hist s = snd (make_nonblocking E q (snd (make_nonblocking E p
      (h1 @ [EvNow started, EvSpawn r]))))"
    by simp
  have "costs 2 0 h1 (h1 @ [EvNow started, EvSpawn r])" by (simp add: costs_def)
  from costs_trans [OF costs_trans [OF this make_nonblocking_cost [of _ E p]] make_nonblocking_cost [of _ E q]]
  have "costs 6 0 h1 (ex_hist s)" by (simp add: s)
  from costs_time [OF assms(1) this] show ?thesis by (simp add: started)
qed

lemma costs_grows: "costs n w h h' \<Longrightarrow> grows h h'"
  by (auto simp: costs_def extends_def list_all_iff)

lemma conclude_exec_cost:
  assumes "conclude_exec E pc started outcome s = (r, h)"
  shows "costs 4 0 (ex_hist s) h"
proof -
  obtain d o' obs h1 where rel:
    "relinquish E (ex_reap s) (ex_owned s) (ex_obs s) (ex_hist s) = (d, o', obs, h1)"
    by (cases "relinquish E (ex_reap s) (ex_owned s) (ex_obs s) (ex_hist s)") auto
  then have "costs 1 0 (ex_hist s) h1"
    using relinquish_cost [of "ex_hist s" E "ex_reap s" "ex_owned s" "ex_obs s"] by simp
  from costs_trans [OF costs_snoc [OF this, of "EvNow (on_now E h1)"] drop_owned_cost [of _ E o']]
  show ?thesis
    using conclude_exec_eq [OF rel, of pc started outcome] assms by (simp add: numeral_eq_Suc)
qed

text \<open>From the end of supervision on, whatever ended it.\<close>

lemma finish_exec_time:
  assumes "prompt m E" and "finish_exec E pc started dl s = Some (r, h)"
  shows "on_now E h \<le> on_now E (ex_hist s) + cleanup_budget_limit + 44 * m"
    "run_evidence r = Some ev \<Longrightarrow> \<exists>finished. elapsed ev = Some (finished - started) \<and>
       finished \<le> on_now E (ex_hist s) + cleanup_budget_limit + 41 * m"
proof -
  obtain cl outcome s' where sig: "signal_exec E s = (cl, outcome, s')"
    by (cases "signal_exec E s") auto
  obtain t where t: "run_loop (cleanup_turn E dl cl) s' = Some t"
    and res: "conclude_exec E pc started outcome t = (r, h)"
    using assms(2) sig by (auto simp: finish_exec_def)
  note S = signal_exec_cost [OF sig]
  have "on_now E (ex_hist s') \<le> cl + 39 * m"
    using S costs_time [OF assms(1), of 2 0 "ex_hist s" "ex_hist s'"] by simp
  with timely_cleaning.result [OF t] assms(1) have "on_now E (ex_hist t) \<le> cl + 40 * m" by simp
  with S have T: "on_now E (ex_hist t) \<le> on_now E (ex_hist s) + cleanup_budget_limit + 40 * m" by simp
  obtain d o' obs h1 where rel:
    "relinquish E (ex_reap t) (ex_owned t) (ex_obs t) (ex_hist t) = (d, o', obs, h1)"
    by (cases "relinquish E (ex_reap t) (ex_owned t) (ex_obs t) (ex_hist t)") auto
  have h1: "on_now E h1 \<le> on_now E (ex_hist s) + cleanup_budget_limit + 41 * m"
    using costs_time [OF assms(1) relinquish_cost [of "ex_hist t" E "ex_reap t" "ex_owned t" "ex_obs t"]]
      T rel by simp
  from costs_time [OF assms(1) conclude_exec_cost [OF res]] T
  show "on_now E h \<le> on_now E (ex_hist s) + cleanup_budget_limit + 44 * m" by simp
  show "\<exists>finished. elapsed ev = Some (finished - started) \<and>
      finished \<le> on_now E (ex_hist s) + cleanup_budget_limit + 41 * m"
    if "run_evidence r = Some ev"
    using conclude_exec_eq [OF rel, of pc started outcome, unfolded res] that h1
    by (auto simp: classify_evidence exec_evidence_def saturating_duration_since_def)
qed

text \<open>
  The allowance: with a margin small enough that 82 calls fit into the part of the allowance
  that is not the cleanup budget, an invocation ends within its deadline plus the allowance.
\<close>

definition allowance_margin :: "duration \<Rightarrow> bool" where
  "allowance_margin m \<longleftrightarrow> cleanup_budget_limit + 82 * m \<le> cleanup_allowance"

lemma finish_within_allowance:
  "prompt m E \<Longrightarrow> allowance_margin m \<Longrightarrow> finish_exec E pc started dl s = Some (r, h) \<Longrightarrow>
   on_now E h \<le> on_now E (ex_hist s) + cleanup_allowance"
  using finish_exec_time(1) [of m E pc started dl s r h] by (simp add: allowance_margin_def)

lemma execute_unix_time:
  assumes "prompt m E" and "allowance_margin m" and "pc_execution pc = Deadline d"
    and "execute_unix E pc [] = Some (r, h)" and "run_evidence r = Some ev"
  shows "\<exists>started. EvNow started \<in> set h \<and> on_now E h \<le> started + d + cleanup_allowance \<and>
    (\<exists>e. elapsed ev = Some e \<and> e \<le> d + cleanup_allowance)"
  using assms(4)
proof (cases rule: execute_unix_steps)
  case (refused e)
  with assms(5) begin_exec_Err(1) show ?thesis by fastforce
next
  case (ran started dl s h0 s1 cl outcome s2 s3)
  from ran(1) obtain pid where sup: "supervising (pc_stdout_capture pc) (pc_stderr_capture pc) dl pid s"
    and "execution_deadline (instant_limit E) (pc_execution pc) started = Ok dl"
    and seen: "EvNow started \<in> set (ex_hist s)"
    by (rule begin_exec_Ok)
  then have dl: "dl = Some (started + d)"
    using assms(3) by (auto simp: execution_deadline_Ok)
  note s1 = ran(2) [unfolded dl] and fin = ran(6) [unfolded dl]
  have late: "on_now E (ex_hist s1) \<le> started + d + 38 * m"
    using timely_supervision.result [OF s1, of m] assms(1) begin_exec_time [OF assms(1) ran(1)] by simp
  note F = finish_exec_time [OF assms(1) fin]
  have "supervising (pc_stdout_capture pc) (pc_stderr_capture pc) (Some (started + d)) pid s1"
    using supervision.result [OF s1] sup dl by simp
  then obtain cl kr t where t: "grows (ex_hist s1) (ex_hist t)"
    "conclude_exec E pc started (signal_of kr) t = (r, h)"
    using fin by (rule finish_exec_Some)
  have "grows (ex_hist t) h" using conclude_exec_cost [OF t(2)] by (rule costs_grows)
  with seen t supervision_growth.result [OF s1, of "ex_hist s"] have "EvNow started \<in> set h"
    by (meson extends_refl extends_subset subsetD)
  then show ?thesis
    using F(1) F(2) [OF assms(5)] late assms(2) by (fastforce simp: allowance_margin_def)
qed

end
