(* ===== verification/Sample_Runs.thy ===== *)
theory Sample_Runs
  imports Adapters Timing
begin

text \<open>
  Concrete machines and commands, and the outcome of running them. They show that the
  hypotheses of the properties can hold together, and that the model computes.
\<close>

section \<open>A small machine\<close>

text \<open>
  The clock advances a millisecond per call; the child writes \<open>bs\<close> to its standard output in
  one piece and closes both streams; it exits with status \<open>code\<close> once \<open>n\<close> calls were made; the
  token is set from the start or never.
\<close>

definition machine :: "nat \<Rightarrow> nat \<Rightarrow> byte list \<Rightarrow> bool \<Rightarrow> os_env" where
  "machine n code bs token =
     \<lparr>instant_limit = 2 ^ 100, nonblock_flag = 2048,
      on_now = (\<lambda>h. length h * 1000000),
      on_thread = (\<lambda>_ _. Ok ()), on_spawn = (\<lambda>_ _. Ok 42),
      on_getfl = (\<lambda>_ _. Ok 0), on_setfl = (\<lambda>_ _ _. Ok ()),
      on_cancelled = (\<lambda>_. token),
      on_waitid = (\<lambda>h _. Ok (if length h < n then None else Some (ExitStatus (int code)))),
      on_poll = (\<lambda>_ _ _. Ok (\<lambda>_. True)),
      on_read = (\<lambda>h p _. Ok (if p = ChildStdout \<and> bytes_read ChildStdout h = [] then bs else [])),
      on_reserve = (\<lambda>_ _. True), on_kill = (\<lambda>_ _. Ok ()),
      on_wait = (\<lambda>_ _. Ok (ExitStatus (int code))), on_handoff = (\<lambda>_ _. True),
      on_cancel_try = (\<lambda>_. if token then Received else NoMessage),
      on_cancel_wait = (\<lambda>_ _. if token then Received else NoMessage),
      on_startup = (\<lambda>_. True)\<rparr>"

definition linux :: target where
  "linux = \<lparr>target_unix = True, target_os = ''linux''\<rparr>"

definition echo :: "execution_policy \<Rightarrow> capture_policy \<Rightarrow> ready command" where
  "echo p stdout = capture_stdout (into_state (command_new ''/bin/echo'') (ready_new p)) stdout"

definition one_second :: execution_policy where
  "one_second = Deadline (from_secs 1)"

lemma machine_paced: "paced 1 (machine n code bs token)"
  by (simp add: paced_def machine_def)

lemma machine_prompt: "prompt 1000000 (machine n code bs token)"
  by (simp add: prompt_def machine_def)

lemma machine_margin: "allowance_margin 1000000"
  by (simp add: allowance_margin_def cleanup_budget_limit_def cleanup_allowance_def from_secs_def
      from_millis_def nanos_per_sec_def)

lemma machine_exits: "exits_by n (machine n code bs token)"
  by (simp add: exits_by_def machine_def)

section \<open>Runs\<close>

fun outcome_is :: "(epi_error + 'a \<Rightarrow> bool) \<Rightarrow> 'a outcome \<Rightarrow> bool" where
  "outcome_is P (Some (r, h)) \<longleftrightarrow> P r"
| "outcome_is P None \<longleftrightarrow> False"

lemma outcome_is_Some: "outcome_is P x \<Longrightarrow> \<exists>r h. x = Some (r, h) \<and> P r"
  by (cases x) auto

text \<open>Some call of a run satisfies a predicate.\<close>

fun outcome_has :: "(event \<Rightarrow> bool) \<Rightarrow> 'a outcome \<Rightarrow> bool" where
  "outcome_has P (Some (r, h)) \<longleftrightarrow> list_ex P h"
| "outcome_has P None \<longleftrightarrow> False"

lemma outcome_has_Some: "outcome_has P x \<Longrightarrow> \<exists>r h e. x = Some (r, h) \<and> e \<in> set h \<and> P e"
  by (cases x) (auto simp: list_ex_iff)

fun is_timeout :: "epi_error + 'a \<Rightarrow> bool" where
  "is_timeout (Err (Timeout _ _ _)) \<longleftrightarrow> True"
| "is_timeout _ \<longleftrightarrow> False"

fun is_cancelled_error :: "epi_error + 'a \<Rightarrow> bool" where
  "is_cancelled_error (Err (Cancelled _ _)) \<longleftrightarrow> True"
| "is_cancelled_error _ \<longleftrightarrow> False"

fun is_limit :: "epi_error + 'a \<Rightarrow> bool" where
  "is_limit (Err (CaptureLimitExceeded _ stream limit _)) \<longleftrightarrow> stream = Stdout \<and> limit = 1"
| "is_limit _ \<longleftrightarrow> False"

fun is_non_zero :: "epi_error + 'a \<Rightarrow> bool" where
  "is_non_zero (Err (NonZeroExit _ _)) \<longleftrightarrow> True"
| "is_non_zero _ \<longleftrightarrow> False"

lemma sample_success:
  "outcome_is is_ok (execute (machine 0 0 [104, 105] False) linux [] (echo one_second capture_policy_default))"
  by code_simp

lemma sample_limit:
  "outcome_is is_limit (execute (machine 15 0 [104, 105] False) linux [] (echo one_second (bounded 1)))"
  by code_simp

lemma sample_cancelled:
  "outcome_is is_cancelled_error (execute (machine 0 0 [] True) linux [] (echo one_second capture_policy_default))"
  by code_simp

lemma sample_timeout:
  "outcome_is is_timeout (execute (machine 10 0 [] False) linux [] (echo (Deadline (from_millis 1)) capture_policy_default))"
  by code_simp

lemma sample_non_zero:
  "outcome_is is_non_zero (execute (machine 0 3 [] False) linux [] (echo one_second capture_policy_default))"
  by code_simp

section \<open>Managed runs\<close>

definition streamed :: "execution_policy \<Rightarrow> streaming_command" where
  "streamed p = StreamingCommand (echo p capture_policy_default)"

fun managed_outcome_is ::
  "(epi_error + managed_output \<Rightarrow> bool)
     \<Rightarrow> (epi_error + managed_startup) \<times> ((epi_error + managed_output) option \<times> history) option \<Rightarrow> bool" where
  "managed_outcome_is P (Ok su, Some (Some r, h)) \<longleftrightarrow> P r"
| "managed_outcome_is P _ \<longleftrightarrow> False"

lemma managed_outcome_is_Some:
  "managed_outcome_is P x \<Longrightarrow> \<exists>su r h. x = (Ok su, Some (Some r, h)) \<and> P r"
  by (cases "(P, x)" rule: managed_outcome_is.cases) auto

lemma sample_managed:
  "managed_outcome_is is_ok (spawn_managed (machine 0 0 [] False) linux [] (streamed one_second))"
  by code_simp

lemma sample_managed_cancelled:
  "managed_outcome_is is_cancelled_error (spawn_managed (machine 0 0 [] True) linux [] (streamed one_second))"
  by code_simp

end
