(* ===== verification/Managed_Handle.thy ===== *)
theory Managed_Handle
  imports Managed_Child
begin

text \<open>
  What the operations of the handle do in every interleaving with the supervisor thread: where
  they are suspended, what they have done to the channels by then, and what they answer. The
  terminal result is never lost, duplicated or changed.
\<close>

section \<open>What an operation does, suspended or not\<close>

text \<open>What the terminal result of a supervisor is, as the handle may report it.\<close>

definition closed_result :: "u32 \<Rightarrow> terminal_result" where
  "closed_result n =
     Err (SupervisionFailed (ManagedChildLabel n) (io_other channel_closed) unknown_evidence)"

definition expected_result :: "u32 \<Rightarrow> managed_link \<Rightarrow> terminal_result option" where
  "expected_result n lk =
     (case lk_sent lk of
        Some r \<Rightarrow> Some r
      | None \<Rightarrow> if lk_ended lk = None then None else Some (closed_result n))"

text \<open>Results after joining: a panic turns success into a failure that keeps the evidence.\<close>

definition joined_result :: "u32 \<Rightarrow> bool \<Rightarrow> terminal_result \<Rightarrow> terminal_result" where
  "joined_result n panicked r =
     (case r of
        Ok out \<Rightarrow>
          if panicked then Err (SupervisionFailed (ManagedChildLabel n)
            (io_other ''managed supervisor panicked'') (mo_evidence out))
          else Ok out
      | Err e \<Rightarrow> Err e)"

definition handle_ok :: "managed_startup \<Rightarrow> managed_child \<Rightarrow> managed_link \<Rightarrow> bool" where
  "handle_ok su c lk \<longleftrightarrow>
     mc_id c = su_id su \<and> mc_supervisor c \<and> lk_sender lk \<and> lk_cancels lk = 0 \<and>
     (mc_result c = None \<longrightarrow> lk_slot lk = lk_sent lk) \<and>
     (mc_result c \<noteq> None \<longrightarrow> lk_slot lk = None \<and> mc_result c = expected_result (su_id su) lk)"

text \<open>
  The answer a call owes for a result, and what it must have done to the cancel channel by the
  time it is suspended.
\<close>

fun reply_to :: "request \<Rightarrow> terminal_result \<Rightarrow> reply" where
  "reply_to AskWait r = WaitReply r"
| "reply_to AskCancel r = CancelReply (cancel_result r)"
| "reply_to AskDrop r = DropReply"

definition joins :: "request \<Rightarrow> u32 \<Rightarrow> terminal_result \<Rightarrow> (managed_link \<Rightarrow> reply task) \<Rightarrow> bool" where
  "joins q n r k \<longleftrightarrow>
     (\<forall>lk p. lk_ended lk = Some p \<longrightarrow>
        k lk = Finished (reply_to q (joined_result n p r)) (lk\<lparr>lk_sender := False\<rparr>))"

definition receives :: "request \<Rightarrow> u32 \<Rightarrow> (managed_link \<Rightarrow> reply task) \<Rightarrow> bool" where
  "receives q n k \<longleftrightarrow>
     (\<forall>lk r. lk_slot lk = Some r \<and> lk_ended lk = None \<longrightarrow>
        (\<exists>k'. joins q n r k' \<and> k lk = Suspended ForThread (lk\<lparr>lk_slot := None\<rparr>) k')) \<and>
     (\<forall>lk p. lk_ended lk = Some p \<longrightarrow>
        k lk = Finished
          (reply_to q (joined_result n p (case lk_slot lk of Some r \<Rightarrow> r | None \<Rightarrow> closed_result n)))
          (lk\<lparr>lk_slot := None, lk_sender := False\<rparr>))"

definition calling_ok ::
  "managed_startup \<Rightarrow> request \<Rightarrow> wait_for \<Rightarrow> (managed_link \<Rightarrow> reply task) \<Rightarrow> managed_link \<Rightarrow> bool" where
  "calling_ok su q w k lk \<longleftrightarrow>
     q \<noteq> AskDrop \<and> lk_sender lk \<and> lk_cancels lk = (if q = AskCancel then 1 else 0) \<and>
     (case w of
        ForResult \<Rightarrow> lk_slot lk = lk_sent lk \<and> receives q (su_id su) k
      | ForThread \<Rightarrow> lk_slot lk = None \<and>
          (\<exists>r. expected_result (su_id su) lk = Some r \<and> joins q (su_id su) r k))"

text \<open>A call is the waiting it shares with the others, and its own answer.\<close>

definition after_wait :: "request \<Rightarrow> terminal_result \<times> managed_child \<Rightarrow> managed_link \<Rightarrow> reply task" where
  "after_wait q = (\<lambda>(r, c) lk. and_then (drop_managed c lk) (\<lambda>_. Finished (reply_to q r)))"

lemma and_then_assoc: "and_then (and_then t f) g = and_then t (\<lambda>a lk. and_then (f a lk) g)"
  by (induction t) simp_all

lemma call_wait: "call AskWait c lk = and_then (wait_inner c lk) (after_wait AskWait)"
  "call AskCancel c lk = and_then (wait_inner c (send_cancel lk)) (after_wait AskCancel)"
  by (simp_all add: wait_def cancel_def after_wait_def and_then_assoc split_def)

fun asked :: "request \<Rightarrow> managed_link \<Rightarrow> managed_link" where
  "asked AskCancel lk = send_cancel lk"
| "asked _ lk = lk"

lemma call_asked: "q \<noteq> AskDrop \<Longrightarrow> call q c lk = and_then (wait_inner c (asked q lk)) (after_wait q)"
  by (cases q) (simp_all add: call_wait del: call.simps)

lemma asked_channels [simp]:
  "lk_sent (asked q lk) = lk_sent lk" "lk_ended (asked q lk) = lk_ended lk"
  "lk_slot (asked q lk) = lk_slot lk" "lk_sender (asked q lk) = lk_sender lk"
  "lk_cancels (asked q lk) = (if q = AskCancel then Suc (lk_cancels lk) else lk_cancels lk)"
  by (cases q; simp add: send_cancel_def)+

lemma asked_expected [simp]: "expected_result n (asked q lk) = expected_result n lk"
  by (simp add: expected_result_def split: option.split)

text \<open>The end of a call, from the join on: \<open>c\<close> holds the result.\<close>

definition from_join :: "request \<Rightarrow> managed_child \<Rightarrow> managed_link \<Rightarrow> reply task" where
  "from_join q c lk =
     and_then (and_then (join_after_result c lk)
       (\<lambda>c. Finished
          (case mc_result c of
             Some r \<Rightarrow> (r, c\<lparr>mc_result := None\<rparr>)
           | None \<Rightarrow> (Err (channel_failure c channel_closed), c))))
       (after_wait q)"

lemma from_join:
  assumes "mc_result c = Some r" and "mc_supervisor c"
  shows "lk_ended lk = Some p \<Longrightarrow>
      from_join q c lk = Finished (reply_to q (joined_result (mc_id c) p r)) (lk\<lparr>lk_sender := False\<rparr>)"
    "lk_ended lk = None \<Longrightarrow> \<exists>k. from_join q c lk = Suspended ForThread lk k \<and> joins q (mc_id c) r k"
  using assms
  by (auto simp: from_join_def join_after_result_def join_thread_def block_on_def can_resume_def
      after_wait_def drop_managed_def joined_result_def joins_def Let_def split: sum.split)

lemma slot_idle: "lk_slot lk = None \<Longrightarrow> lk\<lparr>lk_slot := None\<rparr> = (lk :: managed_link)"
  by (cases lk) simp

lemma recv_takes:
  "recv lk = block_on ForResult (\<lambda>lk. Finished (lk_slot lk) (lk\<lparr>lk_slot := None\<rparr>)) lk"
proof -
  have "(case try_recv lk of (Delivered r, lk) \<Rightarrow> Finished (Some r) lk | (_, lk) \<Rightarrow> Finished None lk)
      = Finished (lk_slot lk) (lk\<lparr>lk_slot := None\<rparr>)" for lk
    by (simp add: try_recv_def slot_idle split: option.split)
  then show ?thesis by (simp add: recv_def)
qed

lemma block_on_and_then:
  "and_then (block_on w k lk) f = block_on w (\<lambda>lk. and_then (k lk) f) lk"
  by (simp add: block_on_def)

lemma call_steps:
  assumes "q \<noteq> AskDrop" and "handle_ok su c lk"
  shows "call q c lk =
    (case mc_result c of
       Some r \<Rightarrow> from_join q (c\<lparr>mc_stdin := None\<rparr>) (asked q lk)
     | None \<Rightarrow>
         block_on ForResult
           (\<lambda>lk. from_join q
              (c\<lparr>mc_stdin := None, mc_result := Some
                 (case lk_slot lk of Some r \<Rightarrow> r | None \<Rightarrow> closed_result (su_id su))\<rparr>)
              (lk\<lparr>lk_slot := None\<rparr>)) (asked q lk))"
proof -
  have "mc_id c = su_id su" using assms(2) by (simp add: handle_ok_def)
  then show ?thesis
    unfolding call_asked [OF assms(1)]
    by (simp add: wait_inner_def take_child_stdin_def receive_blocking_def recv_takes block_on_and_then
        from_join_def and_then_assoc channel_failure_def closed_result_def cong: option.case_cong
        split: option.split)
qed

section \<open>Calls\<close>

text \<open>A call is suspended while the thread runs, and answers for its result once it has ended.\<close>

lemma call_ended:
  assumes "q \<noteq> AskDrop" and "handle_ok su c lk" and "lk_ended lk = Some p"
  shows "call q c lk =
    Finished (reply_to q (joined_result (su_id su) p (the (expected_result (su_id su) lk))))
      ((asked q lk)\<lparr>lk_slot := None, lk_sender := False\<rparr>)"
proof (cases "mc_result c")
  case None
  with assms have "lk_slot lk = lk_sent lk" "mc_id c = su_id su" "mc_supervisor c"
    by (simp_all add: handle_ok_def)
  with None assms(3) show ?thesis
    by (auto simp: call_steps [OF assms(1,2)] block_on_def can_resume_def expected_result_def
        from_join(1) [of _ _ _ p] split: option.split)
next
  case (Some r)
  with assms have "lk_slot lk = None" "expected_result (su_id su) lk = Some r" "mc_id c = su_id su"
    "mc_supervisor c"
    by (simp_all add: handle_ok_def)
  with Some assms(3) show ?thesis
    by (simp add: call_steps [OF assms(1,2)] from_join(1) [of _ r _ p])
qed

lemma receives_from_join:
  assumes "mc_id c = n" and "mc_supervisor c"
  shows "receives q n
    (\<lambda>lk. from_join q
       (c\<lparr>mc_stdin := None, mc_result := Some (case lk_slot lk of Some r \<Rightarrow> r | None \<Rightarrow> closed_result n)\<rparr>)
       (lk\<lparr>lk_slot := None\<rparr>))"
  unfolding receives_def
proof (intro conjI allI impI)
  fix lk :: managed_link and r
  assume "lk_slot lk = Some r \<and> lk_ended lk = None"
  with from_join(2) [of "c\<lparr>mc_stdin := None, mc_result := Some r\<rparr>" r "lk\<lparr>lk_slot := None\<rparr>" q] assms
  show "\<exists>k'. joins q n r k' \<and>
      from_join q (c\<lparr>mc_stdin := None, mc_result := Some
          (case lk_slot lk of Some r \<Rightarrow> r | None \<Rightarrow> closed_result n)\<rparr>) (lk\<lparr>lk_slot := None\<rparr>) =
        Suspended ForThread (lk\<lparr>lk_slot := None\<rparr>) k'"
    by auto
next
  fix lk :: managed_link and p
  assume "lk_ended lk = Some p"
  then show "from_join q (c\<lparr>mc_stdin := None, mc_result := Some
          (case lk_slot lk of Some r \<Rightarrow> r | None \<Rightarrow> closed_result n)\<rparr>) (lk\<lparr>lk_slot := None\<rparr>) =
        Finished (reply_to q (joined_result n p (case lk_slot lk of Some r \<Rightarrow> r | None \<Rightarrow> closed_result n)))
          (lk\<lparr>lk_slot := None, lk_sender := False\<rparr>)"
    using assms by (simp add: from_join(1) [of _ _ _ p])
qed

lemma call_running:
  assumes "q \<noteq> AskDrop" and "handle_ok su c lk" and "lk_ended lk = None"
  obtains w lk' k where "call q c lk = Suspended w lk' k" "calling_ok su q w k lk'"
    "lk_sent lk' = lk_sent lk" "lk_ended lk' = None"
proof -
  have c: "mc_id c = su_id su" "mc_supervisor c" "lk_sender lk" "lk_cancels lk = 0"
    using assms(2) by (simp_all add: handle_ok_def)
  note steps = call_steps [OF assms(1,2)]
  show ?thesis
  proof (cases "mc_result c")
    case (Some r)
    with assms have r: "lk_slot lk = None" "expected_result (su_id su) lk = Some r"
      by (simp_all add: handle_ok_def)
    from from_join(2) [of "c\<lparr>mc_stdin := None\<rparr>" r "asked q lk" q] Some c assms(3)
    obtain k where "call q c lk = Suspended ForThread (asked q lk) k" "joins q (su_id su) r k"
      by (auto simp: steps)
    with r c assms(1,3) show ?thesis
      by (intro that [of ForThread "asked q lk" k]) (auto simp: calling_ok_def simp del: call.simps)
  next
    case None
    with assms have slot: "lk_slot lk = lk_sent lk" by (simp add: handle_ok_def)
    let ?k = "\<lambda>lk. from_join q
       (c\<lparr>mc_stdin := None, mc_result := Some
          (case lk_slot lk of Some r \<Rightarrow> r | None \<Rightarrow> closed_result (su_id su))\<rparr>) (lk\<lparr>lk_slot := None\<rparr>)"
    have call: "call q c lk = block_on ForResult ?k (asked q lk)"
      using None by (simp add: steps)
    have rec: "receives q (su_id su) ?k"
      by (rule receives_from_join [OF c(1,2)])
    show ?thesis
    proof (cases "lk_slot lk")
      case slotted: None
      with call assms(3) have "call q c lk = Suspended ForResult (asked q lk) ?k"
        by (simp add: block_on_def can_resume_def)
      with rec slot c assms(1,3) show ?thesis
        by (intro that [of ForResult "asked q lk" ?k]) (auto simp: calling_ok_def simp del: call.simps)
    next
      case (Some r)
      with call assms(3) have "call q c lk = ?k (asked q lk)"
        by (simp add: block_on_def can_resume_def)
      moreover obtain k' where "joins q (su_id su) r k'"
        "?k (asked q lk) = Suspended ForThread ((asked q lk)\<lparr>lk_slot := None\<rparr>) k'"
        using rec Some assms(3) unfolding receives_def by (metis asked_channels(2,3))
      moreover have "lk_sent lk = Some r" using slot Some by simp
      ultimately show ?thesis
        using c assms(1,3)
        by (intro that [of ForThread "(asked q lk)\<lparr>lk_slot := None\<rparr>" k'])
          (auto simp: calling_ok_def expected_result_def simp del: call.simps)
    qed
  qed
qed

text \<open>A suspended call goes on in the same way.\<close>

lemma calling_ended:
  assumes "calling_ok su q w k lk" and "lk_ended lk = Some p"
  shows "k lk = Finished (reply_to q (joined_result (su_id su) p (the (expected_result (su_id su) lk))))
      (lk\<lparr>lk_slot := None, lk_sender := False\<rparr>)"
proof (cases w)
  case ForResult
  with assms show ?thesis
    by (auto simp: calling_ok_def receives_def expected_result_def split: option.split)
next
  case ForThread
  with assms have "lk\<lparr>lk_slot := None, lk_sender := False\<rparr> = lk\<lparr>lk_sender := False\<rparr>"
    by (simp add: calling_ok_def)
  with ForThread assms show ?thesis
    by (auto simp: calling_ok_def joins_def)
qed

lemma calling_running:
  assumes "calling_ok su q w k lk" and "can_resume w lk" and "lk_ended lk = None"
  obtains lk' k' where "k lk = Suspended ForThread lk' k'" "calling_ok su q ForThread k' lk'"
    "lk_sent lk' = lk_sent lk" "lk_ended lk' = None"
proof -
  obtain r where w: "w = ForResult" and r: "lk_slot lk = Some r"
    using assms(2,3) by (auto simp: can_resume_def split: wait_for.splits)
  have "receives q (su_id su) k" using assms(1) w by (simp add: calling_ok_def)
  then obtain k' where "joins q (su_id su) r k'" "k lk = Suspended ForThread (lk\<lparr>lk_slot := None\<rparr>) k'"
    using r assms(3) unfolding receives_def by blast
  moreover have "lk_sent lk = Some r" using assms(1) w r by (simp add: calling_ok_def)
  ultimately show ?thesis
    using assms(1,3) w
    by (intro that [of "lk\<lparr>lk_slot := None\<rparr>" k']) (auto simp: calling_ok_def expected_result_def)
qed

section \<open>The invariant of a run\<close>

definition party_ok :: "managed_startup \<Rightarrow> party \<Rightarrow> managed_link \<Rightarrow> bool" where
  "party_ok su w lk \<longleftrightarrow>
     (case w of
        Idle c \<Rightarrow> handle_ok su c lk
      | Calling q f k \<Rightarrow> calling_ok su q f k lk
      | Gone \<Rightarrow> True)"

lemma handle_ok_received:
  assumes "handle_ok su c lk" and "receive_nonblocking c lk = (c', lk')"
  shows "handle_ok su c' lk'" "mc_result c' = expected_result (su_id su) lk"
    "lk_sent lk' = lk_sent lk" "lk_ended lk' = lk_ended lk"
  using assms
  by (auto simp: receive_nonblocking_def try_recv_def handle_ok_def expected_result_def
      channel_failure_def closed_result_def split: option.splits if_splits)

fun poll_of :: "terminal_result option \<Rightarrow> managed_poll" where
  "poll_of None = Running"
| "poll_of (Some (Ok out)) = Exited out"
| "poll_of (Some (Err e)) = Failed e"

lemma poll_of_Running: "poll_of x = Running \<longleftrightarrow> x = None"
  by (cases x rule: poll_of.cases) simp_all

lemma poll_spec:
  assumes "handle_ok su c lk" and "poll c lk = (p, c', lk')"
  shows "p = poll_of (expected_result (su_id su) lk)" "lk_sent lk' = lk_sent lk" "lk_ended lk' = lk_ended lk"
    "handle_ok su c' lk'" "mc_result c' = expected_result (su_id su) lk"
proof -
  obtain c1 lk1 where r: "receive_nonblocking c lk = (c1, lk1)" by fastforce
  note R = handle_ok_received [OF assms(1) r]
  from assms(2) r have eqs: "c1 = c'" "lk1 = lk'"
    and p: "p = (case mc_result c1 of Some (Ok out) \<Rightarrow> Exited out | Some (Err e) \<Rightarrow> Failed e | None \<Rightarrow> Running)"
    by (auto simp: poll_def)
  show "p = poll_of (expected_result (su_id su) lk)"
    unfolding p R(2) by (cases "expected_result (su_id su) lk" rule: poll_of.cases) simp_all
  show "lk_sent lk' = lk_sent lk" "lk_ended lk' = lk_ended lk" "handle_ok su c' lk'"
    "mc_result c' = expected_result (su_id su) lk"
    using R eqs by simp_all
qed

lemma party_ok_sends:
  assumes "party_ok su w lk" and "lk_ended lk = None" and "lk_sent lk = None"
  shows "party_ok su w (lk\<lparr>lk_slot := Some r, lk_sent := Some r\<rparr>)"
  using assms
  by (cases w) (auto simp: party_ok_def handle_ok_def calling_ok_def expected_result_def
      split: wait_for.splits)

lemma party_ok_ends:
  assumes "party_ok su w lk" and "lk_ended lk = None"
  shows "party_ok su w (lk\<lparr>lk_ended := Some p\<rparr>)"
  using assms
  by (cases w) (auto simp: party_ok_def handle_ok_def calling_ok_def expected_result_def
      split: wait_for.splits option.splits)

lemma call_drop: "call AskDrop c lk = Finished DropReply (task_link (drop_managed c lk))"
  by (simp add: drop_managed_def Let_def)

lemma party_ok_step:
  assumes "step (w, lk) a (w', lk')" and "party_ok su w lk"
  shows "party_ok su w' lk'"
  using assms(1)
proof cases
  case (sends r)
  with assms(2) party_ok_sends show ?thesis by blast
next
  case (ends p)
  with assms(2) party_ok_ends show ?thesis by blast
next
  case (polls c p c')
  with assms(2) poll_spec(4) show ?thesis by (auto simp: party_ok_def)
next
  case (blocks q c f k)
  then have q: "q \<noteq> AskDrop" using call_drop by (metis task.distinct(1))
  have h: "handle_ok su c lk" using assms(2) blocks by (simp add: party_ok_def)
  show ?thesis
  proof (cases "lk_ended lk")
    case None
    from call_running [OF q h this] blocks show ?thesis by (auto simp: party_ok_def)
  next
    case (Some p)
    with call_ended [OF q h Some] blocks show ?thesis by simp
  qed
next
  case (blocks_again f k f' k' q)
  have c: "calling_ok su q f k lk" using assms(2) blocks_again by (simp add: party_ok_def)
  show ?thesis
  proof (cases "lk_ended lk")
    case None
    from calling_running [OF c blocks_again(4) None] blocks_again show ?thesis by (auto simp: party_ok_def)
  next
    case (Some p)
    with calling_ended [OF c Some] blocks_again show ?thesis by simp
  qed
qed (use assms(2) in \<open>auto simp: party_ok_def handle_ok_def take_child_stdin_def take_child_stdout_def
      take_child_stderr_def\<close>)

lemma managed_run_party: "managed_run su as (w, lk) \<Longrightarrow> party_ok su w lk"
proof (induction "as" "(w, lk)" arbitrary: w lk rule: managed_run.induct)
  case begin_run
  then show ?case by (simp add: party_ok_def handle_ok_def new_managed_child_def new_link_def)
next
  case (next_run as' W a)
  then show ?case by (cases W) (auto dest: party_ok_step)
qed

lemma managed_run_handle: "managed_run su as (Idle c, lk) \<Longrightarrow> handle_ok su c lk"
  using managed_run_party by (fastforce simp: party_ok_def)

lemma managed_run_calling: "managed_run su as (Calling q w k, lk) \<Longrightarrow> calling_ok su q w k lk"
  using managed_run_party by (fastforce simp: party_ok_def)

section \<open>What is reported\<close>

text \<open>
  What a run reported: every poll that was not \<open>Running\<close> gave the one result the supervisor is
  accountable for, and every answered wait or cancel is the answer owed for it.
\<close>

fun owes :: "reply \<Rightarrow> terminal_result \<Rightarrow> bool" where
  "owes (WaitReply r') r \<longleftrightarrow> r' = r"
| "owes (CancelReply a) r \<longleftrightarrow> a = cancel_result r"
| "owes DropReply r \<longleftrightarrow> True"

fun reported :: "u32 \<Rightarrow> managed_link \<Rightarrow> action \<Rightarrow> bool" where
  "reported n lk (Polls p) \<longleftrightarrow> p = Running \<or> expected_result n lk \<noteq> None \<and> p = poll_of (expected_result n lk)"
| "reported n lk (Returns rep) \<longleftrightarrow>
     rep = DropReply \<or>
     (\<exists>panicked. lk_ended lk = Some panicked \<and> owes rep (joined_result n panicked (the (expected_result n lk))))"
| "reported n lk _ \<longleftrightarrow> True"

lemma owes_reply_to: "owes (reply_to q r) r"
  by (cases q) simp_all

text \<open>No step takes a result back, and no step of the handle changes what the thread did.\<close>

lemma call_frame:
  assumes "party_ok su (Idle c) lk"
  shows "lk_sent (task_link (call q c lk)) = lk_sent lk" "lk_ended (task_link (call q c lk)) = lk_ended lk"
proof -
  have "lk_sent (task_link (call q c lk)) = lk_sent lk \<and> lk_ended (task_link (call q c lk)) = lk_ended lk"
  proof (cases "q = AskDrop")
    case True
    then show ?thesis by (simp add: drop_managed_def send_cancel_def Let_def)
  next
    case q: False
    have h: "handle_ok su c lk" using assms by (simp add: party_ok_def)
    show ?thesis
    proof (cases "lk_ended lk")
      case None
      from call_running [OF q h None] obtain w lk' k where "call q c lk = Suspended w lk' k"
        "lk_sent lk' = lk_sent lk" "lk_ended lk' = None" .
      with None show ?thesis by simp
    next
      case (Some p)
      with call_ended [OF q h Some] show ?thesis by simp
    qed
  qed
  then show "lk_sent (task_link (call q c lk)) = lk_sent lk"
    "lk_ended (task_link (call q c lk)) = lk_ended lk" by simp_all
qed

lemma resume_frame:
  assumes "party_ok su (Calling q w k) lk" and "can_resume w lk"
  shows "lk_sent (task_link (k lk)) = lk_sent lk" "lk_ended (task_link (k lk)) = lk_ended lk"
proof -
  have c: "calling_ok su q w k lk" using assms(1) by (simp add: party_ok_def)
  have "lk_sent (task_link (k lk)) = lk_sent lk \<and> lk_ended (task_link (k lk)) = lk_ended lk"
  proof (cases "lk_ended lk")
    case None
    from calling_running [OF c assms(2) None] None show ?thesis by fastforce
  next
    case (Some p)
    with calling_ended [OF c Some] show ?thesis by simp
  qed
  then show "lk_sent (task_link (k lk)) = lk_sent lk" "lk_ended (task_link (k lk)) = lk_ended lk"
    by simp_all
qed

lemma step_frame:
  assumes "step (w, lk) a (w', lk')" and "party_ok su w lk"
  shows "lk_sent lk' = lk_sent lk \<and> lk_ended lk' = lk_ended lk \<or>
    lk_sent lk = None \<and> lk_ended lk = None \<and> lk_ended lk' = None \<or>
    lk_ended lk = None \<and> lk_sent lk' = lk_sent lk"
  using assms(1)
proof cases
  case (polls c p c')
  with assms(2) poll_spec(2,3) [of su c lk p c' lk'] show ?thesis by (simp add: party_ok_def)
next
  case (returns q c r)
  with assms(2) call_frame [of su c lk q] show ?thesis by simp
next
  case (blocks q c f k)
  with assms(2) call_frame [of su c lk q] show ?thesis by simp
next
  case (resumes f k r q)
  with assms(2) resume_frame [of su q f k lk] show ?thesis by simp
next
  case (blocks_again f k f' k' q)
  with assms(2) resume_frame [of su q f k lk] show ?thesis by simp
qed simp_all

lemma expected_result_step:
  assumes "step (w, lk) a (w', lk')" and "party_ok su w lk"
  shows "expected_result n lk \<noteq> None \<Longrightarrow> expected_result n lk' = expected_result n lk"
    "lk_ended lk = Some p \<Longrightarrow> lk_ended lk' = Some p"
  using step_frame [OF assms] by (auto simp: expected_result_def split: option.splits if_splits)

lemma reported_stable:
  assumes "step (w, lk) a (w', lk')" and "party_ok su w lk" and "reported n lk b"
  shows "reported n lk' b"
proof (cases b)
  case (Polls p)
  with assms(3) expected_result_step(1) [OF assms(1,2)] show ?thesis by auto
next
  case (Returns rep)
  show ?thesis
  proof (cases "rep = DropReply")
    case True
    with Returns show ?thesis by simp
  next
    case False
    with assms(3) Returns obtain p where p: "lk_ended lk = Some p"
      "owes rep (joined_result n p (the (expected_result n lk)))" by auto
    then have "expected_result n lk \<noteq> None"
      by (simp add: expected_result_def split: option.split)
    with p Returns expected_result_step [OF assms(1,2)] show ?thesis by simp
  qed
qed (use assms in simp_all)

lemma reported_now:
  assumes "step (w, lk) a (w', lk')" and "party_ok su w lk"
  shows "reported (su_id su) lk' a"
  using assms(1)
proof cases
  case (polls c p c')
  with assms(2) poll_spec(1-3) [of su c lk p c' lk'] show ?thesis
    by (auto simp: expected_result_def party_ok_def)
next
  case (returns q c r)
  show ?thesis
  proof (cases "q = AskDrop")
    case True
    with returns call_drop [of c lk] show ?thesis by simp
  next
    case q: False
    have h: "handle_ok su c lk" using assms(2) returns by (simp add: party_ok_def)
    show ?thesis
    proof (cases "lk_ended lk")
      case None
      from call_running [OF q h None] returns show ?thesis by simp
    next
      case (Some p)
      with call_ended [OF q h Some] returns owes_reply_to show ?thesis
        by (auto simp: expected_result_def)
    qed
  qed
next
  case (resumes f k r q)
  have c: "calling_ok su q f k lk" using assms(2) resumes by (simp add: party_ok_def)
  show ?thesis
  proof (cases "lk_ended lk")
    case None
    from calling_running [OF c resumes(4) None] resumes show ?thesis by simp
  next
    case (Some p)
    with calling_ended [OF c Some] resumes owes_reply_to show ?thesis
      by (auto simp: expected_result_def)
  qed
qed simp_all

lemma managed_run_reported:
  "managed_run su as (w, lk) \<Longrightarrow> \<forall>a \<in> set as. reported (su_id su) lk a"
proof (induction "as" "(w, lk)" arbitrary: w lk rule: managed_run.induct)
  case begin_run
  then show ?case by simp
next
  case (next_run as' W a)
  obtain w0 lk0 where W: "W = (w0, lk0)" by fastforce
  have ok: "party_ok su w0 lk0" using next_run(1) managed_run_party by (simp add: W)
  have "reported (su_id su) lk a"
    using next_run(3) reported_now ok by (simp add: W)
  with next_run reported_stable [OF _ ok] show ?case by (auto simp: W)
qed

section \<open>Polls and requests along a run\<close>

text \<open>The handle keeps a result exactly when a poll has reported one.\<close>

lemma managed_run_polled:
  "managed_run su as (Idle c, lk) \<Longrightarrow>
     mc_result c \<noteq> None \<longleftrightarrow> (\<exists>p. Polls p \<in> set as \<and> p \<noteq> Running)"
proof (induction "as" "(Idle c, lk)" arbitrary: c lk rule: managed_run.induct)
  case begin_run
  then show ?case by (simp add: new_managed_child_def)
next
  case (next_run as' W a)
  obtain w0 lk0 where W: "W = (w0, lk0)" by fastforce
  from next_run(3) [unfolded W] show ?case
  proof cases
    case (polls c0 p)
    have run: "managed_run su as' (Idle c0, lk0)" using next_run(1) polls by (simp add: W)
    have IH: "mc_result c0 \<noteq> None \<longleftrightarrow> (\<exists>p. Polls p \<in> set as' \<and> p \<noteq> Running)"
      using next_run(2) polls by (simp add: W)
    note P = poll_spec [OF managed_run_handle [OF run] polls(3)]
    have "mc_result c0 \<noteq> None \<Longrightarrow> mc_result c \<noteq> None"
      using managed_run_handle [OF run] P(5) by (simp add: handle_ok_def)
    with IH P(1,5) polls show ?thesis by (auto simp: poll_of_Running)
  qed (use next_run(2) in \<open>auto simp: W take_child_stdin_def take_child_stdout_def take_child_stderr_def\<close>)
qed

text \<open>A request is sent by the time a cancel is suspended, and once only.\<close>

definition replied :: "action list \<Rightarrow> party \<Rightarrow> managed_link \<Rightarrow> bool" where
  "replied as w lk \<longleftrightarrow>
     (\<forall>rep. Returns rep \<in> set as \<longrightarrow> w = Gone) \<and>
     (\<forall>a. Returns (CancelReply a) \<in> set as \<longrightarrow> lk_cancels lk = 1)"

lemma gone_party_stays: "step (Gone, lk) a (w', lk') \<Longrightarrow>
    w' = Gone \<and> lk_cancels lk' = lk_cancels lk \<and> (\<forall>rep. a \<noteq> Returns rep)"
  by (auto elim: gone_stepE)

lemma cancel_replied:
  assumes "step (w, lk) (Returns (CancelReply a)) (w', lk')" and "party_ok su w lk"
  shows "lk_cancels lk' = 1"
  using assms(1)
proof cases
  case (returns q c)
  have h: "handle_ok su c lk" using assms(2) returns by (simp add: party_ok_def)
  have q: "q \<noteq> AskDrop" using returns call_drop [of c lk] by auto
  show ?thesis
  proof (cases "lk_ended lk")
    case None
    from call_running [OF q h None] returns show ?thesis by simp
  next
    case (Some p)
    with call_ended [OF q h Some] returns h show ?thesis
      by (cases q) (auto simp: handle_ok_def send_cancel_def)
  qed
next
  case (resumes f k q)
  have c: "calling_ok su q f k lk" using assms(2) resumes by (simp add: party_ok_def)
  show ?thesis
  proof (cases "lk_ended lk")
    case None
    from calling_running [OF c resumes(3) None] resumes show ?thesis by simp
  next
    case (Some p)
    with calling_ended [OF c Some] resumes c show ?thesis
      by (cases q) (auto simp: calling_ok_def)
  qed
qed

lemma replied_step:
  assumes "replied as w lk" and "step (w, lk) a (w', lk')" and "party_ok su w lk"
  shows "replied (as @ [a]) w' lk'"
proof (cases "\<exists>rep. Returns rep \<in> set as")
  case True
  with assms(1) have "w = Gone" by (auto simp: replied_def)
  with gone_party_stays assms(1,2) show ?thesis by (fastforce simp: replied_def)
next
  case False
  show ?thesis
  proof (cases "\<exists>rep. a = Returns rep")
    case True
    with assms(2) have "w' = Gone" by (auto elim: stepE)
    with False True cancel_replied [of w lk _ w' lk' su] assms(2,3) show ?thesis
      by (auto simp: replied_def)
  next
    case other: False
    with False show ?thesis by (auto simp: replied_def)
  qed
qed

lemma managed_run_replied: "managed_run su as (w, lk) \<Longrightarrow> replied as w lk"
proof (induction "as" "(w, lk)" arbitrary: w lk rule: managed_run.induct)
  case begin_run
  then show ?case by (simp add: replied_def)
next
  case (next_run as' W a)
  then show ?case
    by (cases W) (auto intro: replied_step dest: managed_run_party)
qed

section \<open>Runs in which a call is suspended\<close>

lemma suspended_run:
  assumes "q \<noteq> AskDrop"
  obtains w lk k where "managed_run su [Blocks q] (Calling q w k, lk)" "lk_sent lk = None" "lk_ended lk = None"
proof -
  have h: "handle_ok su (new_managed_child su) new_link" by (rule managed_run_handle [OF begin_run])
  have "lk_ended new_link = None" "lk_sent new_link = None" by (simp_all add: new_link_def)
  from call_running [OF assms h this(1)] this(2) obtain w lk k
    where call: "call q (new_managed_child su) new_link = Suspended w lk k" "lk_sent lk = None" "lk_ended lk = None"
    by metis
  from next_run [OF begin_run blocks [OF call(1)]] call that show ?thesis by simp
qed

lemma suspended_then_ended:
  assumes "q \<noteq> AskDrop"
  obtains w lk k where
    "managed_run su [Blocks q, SupervisorSends r, SupervisorEnds p] (Calling q w k, lk)"
    "lk_sent lk = Some r" "lk_ended lk = Some p"
proof -
  obtain w lk k where run: "managed_run su [Blocks q] (Calling q w k, lk)"
    and lk: "lk_sent lk = None" "lk_ended lk = None"
    by (rule suspended_run [OF assms])
  let ?lk = "lk\<lparr>lk_slot := Some r, lk_sent := Some r\<rparr>"
  have "managed_run su ([Blocks q] @ [SupervisorSends r]) (Calling q w k, ?lk)"
    by (rule next_run [OF run sends]) (simp_all add: lk)
  from next_run [OF this ends, of p] lk
  have "managed_run su [Blocks q, SupervisorSends r, SupervisorEnds p] (Calling q w k, ?lk\<lparr>lk_ended := Some p\<rparr>)"
    by simp
  with that show ?thesis by simp
qed

lemma suspended_then_answered:
  assumes "q \<noteq> AskDrop"
  obtains lk where
    "managed_run su [Blocks q, SupervisorSends r, SupervisorEnds p,
       Returns (reply_to q (joined_result (su_id su) p r))] (Gone, lk)" "lk_sent lk = Some r"
proof -
  obtain w lk k where run: "managed_run su [Blocks q, SupervisorSends r, SupervisorEnds p] (Calling q w k, lk)"
    and lk: "lk_sent lk = Some r" "lk_ended lk = Some p"
    by (rule suspended_then_ended [OF assms])
  have "can_resume w lk" using lk by (simp add: can_resume_def split: wait_for.split)
  from resumes [where w = w and k = k and lk = lk and q = q, OF this
      calling_ended [OF managed_run_calling [OF run] lk(2)]]
  have "step (Calling q w k, lk) (Returns (reply_to q (joined_result (su_id su) p r)))
      (Gone, lk\<lparr>lk_slot := None, lk_sender := False\<rparr>)"
    using lk(1) by (simp add: expected_result_def)
  from next_run [OF run this] lk show ?thesis
    by (intro that [of "lk\<lparr>lk_slot := None, lk_sender := False\<rparr>"]) simp_all
qed

end
