(* ===== verification/Managed_Session.thy ===== *)
theory Managed_Session
  imports Managed_Handle
begin

text \<open>
  The handle and the supervisor thread together. What the supervisor receives on its end of the
  cancel channel is decided by what the handle does with the other end, and when: the state of
  the link is given as a function of the number of calls the supervisor has made. The handle is
  kept, cancelled or dropped; in the last two cases the supervisor ends, whatever the child
  does, and what the handle reports then is what the supervisor did.
\<close>

section \<open>The cancel channel\<close>

fun is_received :: "event \<Rightarrow> bool" where
  "is_received (EvCancelTry r) \<longleftrightarrow> r = Received"
| "is_received (EvCancelWait _ r) \<longleftrightarrow> r = Received"
| "is_received _ \<longleftrightarrow> False"

definition messages_taken :: "history \<Rightarrow> nat" where
  "messages_taken h = length (filter is_received h)"

text \<open>A message that was sent is delivered before the loss of the sender is noticed.\<close>

definition cancel_answer :: "managed_link \<Rightarrow> nat \<Rightarrow> try_recv" where
  "cancel_answer lk taken =
     (if taken < lk_cancels lk then Received else if lk_sender lk then NoMessage else Disconnected)"

definition session_env :: "(nat \<Rightarrow> managed_link) \<Rightarrow> os_env \<Rightarrow> os_env" where
  "session_env link E =
     E\<lparr>on_cancel_try := \<lambda>h. cancel_answer (link (length h)) (messages_taken h),
       on_cancel_wait := \<lambda>h _. cancel_answer (link (length h)) (messages_taken h)\<rparr>"

section \<open>What becomes of the handle\<close>

text \<open>
  A handle whose supervisor has not ended has no result yet. It is kept (and perhaps waited
  for), or cancelled or dropped when the supervisor has made the given number of calls. What the
  supervisor sees from then on are the channels as the call leaves them while it is suspended
  (\<open>cancel\<close>) or when it has returned (\<open>drop\<close>).
\<close>

datatype ending = Keeps | CancelsAt nat | DropsAt nat

definition live_handle :: "managed_child \<Rightarrow> bool" where
  "live_handle c \<longleftrightarrow> mc_supervisor c \<and> mc_result c = None"

lemma spawned_live: "streaming_spawn E t parent sc = (Ok c, thread) \<Longrightarrow> live_handle c"
  by (auto simp: streaming_spawn_def managed_spawn_def new_managed_child_def live_handle_def
      split: prod.splits sum.splits)

fun link_after :: "ending \<Rightarrow> managed_child \<Rightarrow> nat \<Rightarrow> managed_link" where
  "link_after Keeps c calls = new_link"
| "link_after (CancelsAt n) c calls = (if n \<le> calls then task_link (cancel c new_link) else new_link)"
| "link_after (DropsAt n) c calls = (if n \<le> calls then task_link (drop_managed c new_link) else new_link)"

definition managed_session ::
  "ending \<Rightarrow> managed_child \<Rightarrow> os_env \<Rightarrow> target \<Rightarrow> parent_env \<Rightarrow> streaming_command
     \<Rightarrow> (epi_error + managed_startup) \<times> ((epi_error + managed_output) option \<times> history) option" where
  "managed_session ending c E t parent sc =
     spawn_managed (session_env (link_after ending c) E) t parent sc"

text \<open>The link once the supervisor has sent its result and ended.\<close>

definition settled_link :: "terminal_result \<Rightarrow> managed_link" where
  "settled_link r = new_link\<lparr>lk_slot := Some r, lk_sent := Some r, lk_ended := Some False\<rparr>"

lemma settled_run:
  "managed_run su [SupervisorSends r, SupervisorEnds False] (Idle (new_managed_child su), settled_link r)"
proof -
  let ?c = "Idle (new_managed_child su)"
  let ?lk = "new_link\<lparr>lk_slot := Some r, lk_sent := Some r\<rparr>"
  have "step (?c, new_link) (SupervisorSends r) (?c, ?lk)"
    by (rule sends) (simp_all add: new_link_def)
  from next_run [OF begin_run this] have "managed_run su [SupervisorSends r] (?c, ?lk)"
    by simp
  moreover have "step (?c, ?lk) (SupervisorEnds False) (?c, ?lk\<lparr>lk_ended := Some False\<rparr>)"
    by (rule ends) (simp add: new_link_def)
  ultimately have "managed_run su ([SupervisorSends r] @ [SupervisorEnds False]) (?c, ?lk\<lparr>lk_ended := Some False\<rparr>)"
    by (rule next_run)
  then show ?thesis by (simp add: settled_link_def)
qed

section \<open>A request reaches the supervisor\<close>

lemma unheard_taken: "unheard h \<Longrightarrow> messages_taken h = 0"
proof -
  assume "unheard h"
  moreover have "is_received e \<Longrightarrow> cancels e" for e by (cases e rule: is_received.cases) simp_all
  ultimately show ?thesis by (auto simp: unheard_def messages_taken_def list_ex_iff filter_empty_conv)
qed

lemma suspended_cancel:
  assumes "live_handle c"
  shows "\<exists>k. cancel c new_link = Suspended ForResult (send_cancel new_link) k"
  using assms
  by (simp add: live_handle_def cancel_def wait_inner_def take_child_stdin_def receive_blocking_def
      recv_def block_on_def can_resume_def send_cancel_def new_link_def)

lemma request_is_sent:
  assumes "live_handle c" and "ending = CancelsAt n \<or> ending = DropsAt n" and "n \<le> calls"
  shows "0 < lk_cancels (link_after ending c calls)"
  using assms suspended_cancel [OF assms(1)]
  by (auto simp: live_handle_def drop_managed_def send_cancel_def)

lemma session_cancelled_by:
  assumes "live_handle c" and "ending = CancelsAt n \<or> ending = DropsAt n"
  shows "cancelled_by n (session_env (link_after ending c) E)"
  using request_is_sent [OF assms]
  by (auto simp: cancelled_by_def session_env_def cancel_answer_def unheard_taken)

lemma session_paced [simp]: "paced k (session_env link E) = paced k E"
  by (simp add: paced_def session_env_def)

lemma managed_session_ends:
  assumes "paced k E" and "live_handle c" and "ending = CancelsAt n \<or> ending = DropsAt n"
  shows "\<exists>m res h. managed_session ending c E t parent sc = (m, Some (res, h)) \<and> settles h"
proof -
  have "snd (managed_session ending c E t parent sc) \<noteq> None"
    unfolding managed_session_def
    using assms(1) session_cancelled_by [OF assms(2,3)] by (intro spawn_managed_ends [of k _ _ n]) simp_all
  then obtain m res h where run: "managed_session ending c E t parent sc = (m, Some (res, h))"
    by (cases "managed_session ending c E t parent sc") auto
  with spawn_managed_settles show ?thesis unfolding managed_session_def by blast
qed

text \<open>A kept handle never makes its supervisor see a request.\<close>

lemma kept_never_cancels:
  "cancel_answer (link_after Keeps c calls) taken = NoMessage"
  by (simp add: cancel_answer_def new_link_def)

section \<open>What the handle answers\<close>

lemma settled_calls:
  "call AskWait (new_managed_child su) (settled_link r) =
     Finished (WaitReply r) ((settled_link r)\<lparr>lk_slot := None, lk_sender := False\<rparr>)"
  "call AskCancel (new_managed_child su) (settled_link r) =
     Finished (CancelReply (cancel_result r)) ((send_cancel (settled_link r))\<lparr>lk_slot := None, lk_sender := False\<rparr>)"
proof -
  note ok = managed_run_handle [OF settled_run]
  have "joined_result (su_id su) False r = r" by (simp add: joined_result_def split: sum.split)
  then show "call AskWait (new_managed_child su) (settled_link r) =
     Finished (WaitReply r) ((settled_link r)\<lparr>lk_slot := None, lk_sender := False\<rparr>)"
    "call AskCancel (new_managed_child su) (settled_link r) =
     Finished (CancelReply (cancel_result r)) ((send_cancel (settled_link r))\<lparr>lk_slot := None, lk_sender := False\<rparr>)"
    using call_ended [OF _ ok, where q = AskWait and p = False] call_ended [OF _ ok, where q = AskCancel and p = False]
    by (simp_all add: settled_link_def expected_result_def new_link_def del: call.simps)
qed

lemma and_then_Finished:
  "and_then t (\<lambda>a. Finished (f a)) = Finished (f b) lk \<Longrightarrow> inj f \<Longrightarrow> t = Finished b lk"
  by (cases t) (auto dest: injD)

lemma settled_answers:
  "wait (new_managed_child su) (settled_link r) =
     Finished r ((settled_link r)\<lparr>lk_slot := None, lk_sender := False\<rparr>)"
  "cancel (new_managed_child su) (settled_link r) =
     Finished (cancel_result r) ((send_cancel (settled_link r))\<lparr>lk_slot := None, lk_sender := False\<rparr>)"
  using and_then_Finished [OF settled_calls(1) [unfolded call.simps]]
    and_then_Finished [OF settled_calls(2) [unfolded call.simps]]
  by (simp_all add: inj_def)

text \<open>What a supervisor reports as success or as a settled cancellation really settled.\<close>

lemma cancel_result_settled:
  assumes "spawn_managed E t parent sc = (Ok su, Some (Some r, h))" and "cancel_result r = Ok ev"
  shows "managed_evidence r = Some ev \<and> settled_exit ev \<and> disposition (reap ev) = Reaped"
  using assms(1)
proof (cases rule: spawn_managed_cases)
  case (settled su' r' obs ev')
  note truth = settled(6) [of capture_policy_default capture_policy_default]
  have ev: "managed_evidence r = Some ev'" using settled by (simp add: classify_managed_evidence)
  with assms(2) have "ev = ev'"
    by (auto simp: cancel_result_def split: sum.splits epi_error.splits if_splits)
  moreover have "settled_exit ev'"
  proof (cases r)
    case (Inr out)
    with settled show ?thesis by (auto simp: classify_managed_Ok dest!: sym [of "Ok _" "classify_managed _ _ _ _"])
  next
    case (Inl e)
    with assms(2) ev show ?thesis
      by (auto simp: cancel_result_def cancellation_settled_def settled_exit_def
          split: epi_error.splits if_splits)
  qed
  moreover have "disposition (reap ev') = Reaped" if "settled_exit ev'"
    using truth that
    by (auto simp: evidence_truthful_def cleanup_truthful_def settled_exit_def Let_def split: if_splits)
  ultimately show ?thesis using ev by simp
qed auto

lemma cancel_answer_settled:
  assumes run: "spawn_managed E t parent sc = (Ok su, Some (Some r, h))"
    and ans: "cancel (new_managed_child su) (settled_link r) = Finished (Ok ev) lk'"
  shows "cleanup ev = CleanupComplete \<and> (\<exists>k. EvKill (su_id su) k \<in> set h) \<and>
    (\<exists>st. leader_status ev = Some st \<and> EvWait (su_id su) (Ok st) \<in> set h)"
proof -
  have ev: "managed_evidence r = Some ev" "settled_exit ev" "disposition (reap ev) = Reaped"
    using cancel_result_settled [OF run] ans unfolding settled_answers by auto
  from run ev show ?thesis
  proof (cases rule: spawn_managed_cases)
    case (settled su' r' obs ev')
    then have "ev' = ev" "su' = su" using ev(1) by (simp_all add: classify_managed_evidence)
    with settled(6) [of capture_policy_default capture_policy_default] ev(2,3) show ?thesis
      by (auto simp: evidence_truthful_def settlement_truthful_def settled_exit_def split: option.splits)
  qed auto
qed

end
