(* ===== verification/Managed_Timing.thy ===== *)
theory Managed_Timing
  imports Timing Managed_Executions
begin

text \<open>
  How long a managed invocation can take, by the same accounting as for captured executions:
  its turns make fewer calls, so the same margin is enough.
\<close>

section \<open>Steps and turns\<close>

lemma poll_cancel_cost: "costs 1 0 (ex_hist s) (ex_hist (poll_cancel E s))"
  by (simp add: poll_cancel_eq)

lemma await_cancel_cost: "costs 1 wait (ex_hist s) (ex_hist (await_cancel E wait s))"
  by (simp add: await_cancel_eq)

lemma managed_tick_cost: "costs 1 0 (ex_hist s) (ex_hist (managed_tick E s))"
  by (simp add: managed_tick_def)

lemma managed_observed_cost: "costs 3 0 (ex_hist s) (ex_hist (managed_observed E dl s))"
  unfolding managed_observed_def
  using costs_trans [OF costs_trans [OF observe_cost [of s E] poll_cancel_cost [of _ E]]
      check_deadline_cost [of _ E dl]] by (simp add: numeral_eq_Suc)

lemma managed_reap_cost: "costs 3 0 (ex_hist s) (ex_hist (snd (managed_reap E s)))"
proof -
  let ?s = "observe E (managed_tick E s)"
  have two: "costs 2 0 (ex_hist s) (ex_hist ?s)"
    using costs_trans [OF managed_tick_cost [of s E] observe_cost [of _ E]] by (simp add: numeral_eq_Suc)
  show ?thesis
  proof (cases "leader_waitable (ex_obs ?s)")
    case True
    with costs_trans [OF two reap_step_cost [of _ E]] show ?thesis
      by (simp add: managed_reap_def numeral_eq_Suc)
  next
    case False
    with costs_mono [OF two, of 3 0] show ?thesis by (simp add: managed_reap_def)
  qed
qed

text \<open>A wait bounded by an instant, from the clock reading that chose it.\<close>

lemma await_time:
  assumes "prompt m E" and "on_now E (ex_hist s) + wait \<le> max v (on_now E (ex_hist s))"
  shows "on_now E (ex_hist (await_cancel E wait (managed_tick E s))) \<le> max v (on_now E (ex_hist s)) + 2 * m"
  using costs_time [OF assms(1) costs_trans [OF managed_tick_cost [of s E] await_cancel_cost [of wait _ E]]]
    assms(2) by simp

lemma managed_turn_time:
  assumes "prompt m E"
  shows "managed_turn E (Some v) s = Continue s' \<Longrightarrow> on_now E (ex_hist s') \<le> v + 3 * m"
    and "managed_turn E (Some v) s = Break s' \<Longrightarrow> on_now E (ex_hist s') \<le> on_now E (ex_hist s) + 3 * m"
proof -
  let ?o = "managed_observed E (Some v) s" and ?t = "poll_cancel E (observe E s)"
  assume run: "managed_turn E (Some v) s = Continue s'"
  then have "\<not> managed_triggered ?o" by (rule managed_turn_Continue)
  then have "on_now E (ex_hist ?t) < v"
    by (auto simp: managed_observed_def check_deadline_def past_deadline_def sys_now_def
        managed_triggered_def settlement_triggered_def Let_def)
  moreover have "on_now E (ex_hist ?o) \<le> on_now E (ex_hist ?t) + m"
    using costs_time [OF assms check_deadline_cost [of ?t E "Some v"]] by (simp add: managed_observed_def)
  moreover have "s' = await_cancel E (fst (wait_quantum E (Some v) None (ex_hist ?o))) (managed_tick E ?o)"
    using run wait_quantum_hist [of E "Some v" None "ex_hist ?o"]
    by (auto simp: managed_turn_def managed_observed_def managed_tick_def Let_def
        split: if_splits prod.splits)
  moreover note wait_quantum_until [of "Some v" v None E "ex_hist ?o"]
  ultimately show "on_now E (ex_hist s') \<le> v + 3 * m"
    using await_time [OF assms, of ?o "fst (wait_quantum E (Some v) None (ex_hist ?o))" v] by simp
next
  assume "managed_turn E (Some v) s = Break s'"
  then show "on_now E (ex_hist s') \<le> on_now E (ex_hist s) + 3 * m"
    using costs_time [OF assms managed_observed_cost [of s E "Some v"]] by (auto simp: managed_turn_Break)
qed

interpretation timely_managed_supervision: loop_contract "managed_turn E (Some v)"
    "\<lambda>s. prompt m E \<and> on_now E (ex_hist s) \<le> v + 3 * m"
    "\<lambda>s. on_now E (ex_hist s) \<le> v + 6 * m"
  for E v m
  by unfold_locales (use managed_turn_time in \<open>fastforce\<close>)+

lemma managed_cleanup_turn_time:
  assumes "prompt m E"
  shows "managed_cleanup_turn E cl s = Continue s' \<Longrightarrow> on_now E (ex_hist s') \<le> cl + 5 * m"
    and "managed_cleanup_turn E cl s = Break s' \<Longrightarrow>
      on_now E (ex_hist s') \<le> max (on_now E (ex_hist s) + m) (cl + 3 * m)"
proof -
  obtain ok t where t: "managed_reap E s = (ok, t)" by fastforce
  note reaped = costs_time [OF assms managed_reap_cost [of s E], unfolded t snd_conv]
  let ?wait = "min (saturating_duration_since cl (on_now E (ex_hist t))) event_quantum"
  have w: "on_now E (ex_hist t) + ?wait \<le> max cl (on_now E (ex_hist t))"
    by (auto simp: saturating_duration_since_def)
  {
    assume "managed_cleanup_turn E cl s = Continue s'"
    then have "on_now E (ex_hist s) < cl" "s' = t \<or> s' = await_cancel E ?wait (managed_tick E t)"
      using t by (auto simp: managed_cleanup_turn_cases split: if_splits)
    with reaped await_time [OF assms w] show "on_now E (ex_hist s') \<le> cl + 5 * m" by auto
  next
    assume run: "managed_cleanup_turn E cl s = Break s'"
    consider "s' = s" | "s' = managed_tick E s" | "on_now E (ex_hist s) < cl" "s' = t"
      using run t by (auto simp: managed_cleanup_turn_cases split: if_splits)
    then show "on_now E (ex_hist s') \<le> max (on_now E (ex_hist s) + m) (cl + 3 * m)"
    proof cases
      case 2
      with costs_time [OF assms managed_tick_cost [of s E]] show ?thesis by simp
    qed (use reaped in auto)
  }
qed

interpretation timely_managed_cleaning: loop_contract "managed_cleanup_turn E cl"
    "\<lambda>s. prompt m E \<and> on_now E (ex_hist s) \<le> cl + 5 * m"
    "\<lambda>s. on_now E (ex_hist s) \<le> cl + 6 * m"
  for E cl m
  by unfold_locales (use managed_cleanup_turn_time in \<open>fastforce\<close>)+

section \<open>Whole managed invocations\<close>

lemma managed_conclude_cost:
  assumes "managed_conclude E pc started outcome s = (r, h)"
  shows "costs 4 0 (ex_hist s) h"
proof -
  obtain d o' obs h1 where rel:
    "relinquish E (ex_reap s) (ex_owned s) (ex_obs s) (ex_hist s) = (d, o', obs, h1)"
    by (cases "relinquish E (ex_reap s) (ex_owned s) (ex_obs s) (ex_hist s)") auto
  then have "costs 1 0 (ex_hist s) h1"
    using relinquish_cost [of "ex_hist s" E "ex_reap s" "ex_owned s" "ex_obs s"] by simp
  from costs_trans [OF costs_snoc [OF this, of "EvNow (on_now E h1)"] drop_owned_cost [of _ E o']]
  show ?thesis
    using managed_conclude_eq [OF rel, of pc started outcome] assms by (simp add: numeral_eq_Suc)
qed

lemma managed_finish_time:
  assumes "prompt m E" and "managed_finish E pc started s = Some (r, h)"
  shows "on_now E h \<le> on_now E (ex_hist s) + cleanup_budget_limit + 12 * m"
    "managed_evidence r = Some ev \<Longrightarrow> \<exists>finished. elapsed ev = Some (finished - started) \<and>
       finished \<le> on_now E (ex_hist s) + cleanup_budget_limit + 12 * m"
proof -
  obtain cl outcome s' where sig: "signal_exec E s = (cl, outcome, s')"
    by (cases "signal_exec E s") auto
  obtain t where t: "run_loop (managed_cleanup_turn E cl) s' = Some t"
    and res: "managed_conclude E pc started outcome t = (r, h)"
    using assms(2) sig by (auto simp: managed_finish_def)
  note S = signal_exec_cost [OF sig]
  have "on_now E (ex_hist s') \<le> cl + 5 * m"
    using S costs_time [OF assms(1), of 2 0 "ex_hist s" "ex_hist s'"] by simp
  with timely_managed_cleaning.result [OF t] assms(1) have "on_now E (ex_hist t) \<le> cl + 6 * m" by simp
  with S have T: "on_now E (ex_hist t) \<le> on_now E (ex_hist s) + cleanup_budget_limit + 6 * m" by simp
  obtain d o' obs h1 where rel:
    "relinquish E (ex_reap t) (ex_owned t) (ex_obs t) (ex_hist t) = (d, o', obs, h1)"
    by (cases "relinquish E (ex_reap t) (ex_owned t) (ex_obs t) (ex_hist t)") auto
  have h1: "on_now E h1 \<le> on_now E (ex_hist s) + cleanup_budget_limit + 12 * m"
    using costs_time [OF assms(1) relinquish_cost [of "ex_hist t" E "ex_reap t" "ex_owned t" "ex_obs t"]]
      T rel by simp
  from costs_time [OF assms(1) managed_conclude_cost [OF res]] T
  show "on_now E h \<le> on_now E (ex_hist s) + cleanup_budget_limit + 12 * m" by simp
  show "\<exists>finished. elapsed ev = Some (finished - started) \<and>
      finished \<le> on_now E (ex_hist s) + cleanup_budget_limit + 12 * m"
    if "managed_evidence r = Some ev"
    using managed_conclude_eq [OF rel, of pc started outcome, unfolded res] that h1
    by (auto simp: classify_managed_evidence managed_evidence_of_def saturating_duration_since_def)
qed

lemma managed_begin_time:
  assumes "prompt m E" and "managed_begin E pc h = (Ok (su, started, dl, owned), h')"
  shows "on_now E (h' @ [EvStartup b]) \<le> started + 3 * m"
proof -
  define h1 where "h1 = snd (start_background_reaper E (pc_program pc) h)"
  obtain u where thread: "start_background_reaper E (pc_program pc) h = (Ok u, h1)"
    using assms(2) by (auto simp: managed_begin_def h1_def split: sum.splits prod.splits)
  then obtain r where "started = on_now E h1" "h' = h1 @ [EvNow started, EvSpawn r]"
    using assms(2)
    by (auto simp: managed_begin_def sys_now_def sys_spawn_def Let_def split: sum.splits prod.splits)
  then show ?thesis
    using costs_time [OF assms(1), of 3 0 h1 "h' @ [EvStartup b]"] by (simp add: costs_def)
qed

lemma supervise_managed_time:
  assumes "prompt m E" and "allowance_margin m"
    and "supervise_managed E pc owned (Some (started + d)) started h0 = Some (r, h)"
    and "on_now E h0 \<le> started + 3 * m" and "managed_evidence r = Some ev"
  shows "on_now E h \<le> started + d + cleanup_allowance \<and>
    (\<exists>e. elapsed ev = Some e \<and> e \<le> d + cleanup_allowance)"
proof -
  obtain s1 where s1: "run_loop (managed_turn E (Some (started + d))) (managed_initial owned h0) = Some s1"
    and fin: "managed_finish E pc started s1 = Some (r, h)"
    using assms(3) by (auto simp: supervise_managed_def bind_eq_Some_conv)
  have "on_now E (ex_hist s1) \<le> started + d + 6 * m"
    using timely_managed_supervision.result [OF s1, of m] assms(1,4) by (simp add: managed_initial_def)
  then show ?thesis
    using managed_finish_time(1) [OF assms(1) fin] managed_finish_time(2) [OF assms(1) fin assms(5)] assms(2)
    by (fastforce simp: allowance_margin_def)
qed

lemma launch_managed_time:
  assumes "prompt m E" and "allowance_margin m" and "pc_execution pc = Deadline d"
    and "launch_managed E pc = (message, Some (Some r, h))" and "managed_evidence r = Some ev"
  shows "\<exists>started. EvNow started \<in> set h \<and> on_now E h \<le> started + d + cleanup_allowance \<and>
    (\<exists>e. elapsed ev = Some e \<and> e \<le> d + cleanup_allowance)"
proof -
  let ?h0 = "[EvThread ''epitelesis-managed-supervisor'' (on_thread E [] ''epitelesis-managed-supervisor'')]"
  have U: "untouched ?h0" by (simp add: untouched_def)
  have run: "snd (managed_supervisor E pc ?h0) = Some (Some r, h)"
    using assms(4) by (auto simp: launch_managed_def sys_thread_def Let_def split: sum.splits prod.splits)
  then obtain su started dl owned h1 where beg: "managed_begin E pc ?h0 = (Ok (su, started, dl, owned), h1)"
    by (cases "managed_begin E pc ?h0"; cases "fst (managed_begin E pc ?h0)")
      (auto simp: managed_supervisor_def)
  note B = managed_begin_Ok [OF U beg]
  have dl: "dl = Some (started + d)" using B(2) assms(3) by (auto simp: execution_deadline_Ok)
  let ?h2 = "h1 @ [EvStartup (on_startup E h1)]"
  have sup: "supervise_managed E pc owned (Some (started + d)) started ?h2 = Some (r, h)"
    using run beg by (auto simp: managed_supervisor_def sys_startup_def Let_def dl split: if_splits prod.splits)
  have start: "managed_supervising (Some (started + d)) (su_id su) (managed_initial owned ?h2)"
    using managed_ok_neutral [of dl "su_id su" False "managed_initial owned h1" ?h2] B(1)
    by (simp add: managed_supervising_def managed_initial_def dl)
  have seen: "EvNow started \<in> set ?h2" using B(3) by simp
  have "set ?h2 \<subseteq> set h"
    using start B(2) [unfolded dl] seen sup by (rule supervise_managed_Some)
  with seen show ?thesis
    using supervise_managed_time [OF assms(1,2) sup managed_begin_time [OF assms(1) beg] assms(5)] by blast
qed

end
