(* ===== verification/Managed_Properties.thy ===== *)
theory Managed_Properties
  imports Sample_Runs Managed_Session Managed_Timing
begin

text \<open>
  The properties of managed children: of their supervisor thread, as of captured executions; of
  the handle and the thread together, when the child is kept, cancelled or dropped; and of the
  handle over every interleaving with the thread.
\<close>

section \<open>The supervisor thread\<close>

lemma sample_managed_run:
  obtains su out h where
    "spawn_managed (machine 0 0 [] False) linux [] (streamed one_second) = (Ok su, Some (Some (Ok out), h))"
proof -
  obtain su r h where "spawn_managed (machine 0 0 [] False) linux [] (streamed one_second) = (Ok su, Some (Some r, h))"
    "is_ok r"
    using managed_outcome_is_Some [OF sample_managed] by blast
  with that show ?thesis by (cases r) auto
qed

text \<open>
  C19. The supervisor thread of a managed child, once it ends, has made an accepted sequence of
  calls and left no child alone, also when the launching thread had gone away before startup was
  reported: a child that was spawned had its group signalled and its leader reaped or offered to
  the background reaper.
\<close>

theorem managed_lifecycle:
  assumes "spawn_managed E t parent sc = (m, Some (res, h))"
  shows "settles h"
  using assms by (rule spawn_managed_settles)

theorem managed_lifecycle_witness:
  "\<exists>m res h. spawn_managed (machine 0 0 [] False) linux [] (streamed one_second) = (m, Some (res, h)) \<and>
     settles h"
proof -
  obtain su out h where
    run: "spawn_managed (machine 0 0 [] False) linux [] (streamed one_second) = (Ok su, Some (Some (Ok out), h))"
    by (rule sample_managed_run)
  from managed_lifecycle [OF run] run show ?thesis by blast
qed

text \<open>
  C20. The terminal result of a managed child carries evidence that agrees with the history and
  names the process the handle was given, for whatever capture policies: the supervisor reads
  neither stream.
\<close>

theorem managed_evidence_agrees:
  assumes "spawn_managed E t parent sc = (Ok su, Some (Some r, h))"
  shows "\<exists>ev. managed_evidence r = Some ev \<and> EvSpawn (Ok (su_id su)) \<in> set h \<and>
    evidence_truthful po pe (su_id su) h ev"
  using assms
proof (cases rule: spawn_managed_cases)
  case (settled su' r' obs ev)
  then show ?thesis by (auto simp: classify_managed_evidence)
qed auto

theorem managed_evidence_agrees_witness:
  "\<exists>su out h. spawn_managed (machine 0 0 [] False) linux [] (streamed one_second)
       = (Ok su, Some (Some (Ok out), h)) \<and>
     evidence_truthful capture_policy_default capture_policy_default (su_id su) h (mo_evidence out)"
proof -
  obtain su out h where
    run: "spawn_managed (machine 0 0 [] False) linux [] (streamed one_second) = (Ok su, Some (Some (Ok out), h))"
    by (rule sample_managed_run)
  from managed_evidence_agrees [OF run, of capture_policy_default capture_policy_default] run
  show ?thesis by auto
qed

text \<open>
  C21. Success of a managed child is earned: its group was signalled, its leader reaped with a
  zero status, and cleanup settled without a failure.
\<close>

theorem managed_success:
  assumes "spawn_managed E t parent sc = (Ok su, Some (Some (Ok out), h))"
  shows "success (mo_status out) \<and> settled_exit (mo_evidence out) \<and>
    disposition (reap (mo_evidence out)) = Reaped \<and>
    EvWait (su_id su) (Ok (mo_status out)) \<in> set h \<and> (\<exists>k. EvKill (su_id su) k \<in> set h)"
  using assms
proof (cases rule: spawn_managed_cases)
  case (settled su' r obs ev)
  then have "classify_managed (fst (choose_primary obs None None))
      (PathDisplay (c_program (streaming_inner sc)))
      (execution_duration (execution (c_state (streaming_inner sc)))) ev = Ok out"
    by simp
  then obtain st where "settled_exit ev" "leader_status ev = Some st" "success st"
    "out = managed_output_new st ev"
    by (auto simp: classify_managed_Ok)
  with settled(1) settled(6) [of capture_policy_default capture_policy_default] show ?thesis
    by (auto simp: evidence_truthful_def settlement_truthful_def)
qed auto

theorem managed_success_witness:
  "\<exists>su out h. spawn_managed (machine 0 0 [] False) linux [] (streamed one_second)
       = (Ok su, Some (Some (Ok out), h)) \<and> success (mo_status out)"
proof -
  obtain su out h where
    run: "spawn_managed (machine 0 0 [] False) linux [] (streamed one_second) = (Ok su, Some (Some (Ok out), h))"
    by (rule sample_managed_run)
  from managed_success [OF run] run show ?thesis by blast
qed

text \<open>
  The supervisor thread of a managed child ends when the child has a deadline, and also
  without one once a request is in the cancel channel or its sender is gone.
\<close>

theorem managed_ends:
  assumes "paced k E"
    and "(\<exists>d. execution (c_state (streaming_inner sc)) = Deadline d) \<or> cancelled_by n E"
  shows "snd (spawn_managed E t parent sc) \<noteq> None"
  using assms by (rule spawn_managed_ends)

theorem managed_ends_witness:
  "snd (spawn_managed (machine 9 0 [] True) linux [] (streamed (Unbounded (NonEmptyReason [65])))) \<noteq> None"
  by (rule managed_ends [OF machine_paced, of _ 0]) (simp add: cancelled_by_def machine_def)

definition sample_startup :: managed_startup where
  "sample_startup = \<lparr>su_id = 42, su_stdin = Some ChildStdin, su_stdout = Some ChildStdout, su_stderr = None\<rparr>"

lemma sample_live: "live_handle (new_managed_child sample_startup)"
  by (simp add: live_handle_def new_managed_child_def)

text \<open>
  C22. A managed child never outlives its handle. With a deadline the supervisor thread ends
  whatever becomes of the handle; without one it ends once the handle is cancelled or dropped, at
  whatever point of the supervision that happens; and a spawned child then had its group
  signalled and its leader reaped or offered to the background reaper.
\<close>

theorem managed_session_settles:
  assumes "paced k E"
    and "(\<exists>d. execution (c_state (streaming_inner sc)) = Deadline d) \<or>
      live_handle c \<and> (ending = CancelsAt n \<or> ending = DropsAt n)"
  shows "\<exists>m res h. managed_session ending c E t parent sc = (m, Some (res, h)) \<and> settles h"
proof (cases "\<exists>d. execution (c_state (streaming_inner sc)) = Deadline d")
  case True
  then have "snd (managed_session ending c E t parent sc) \<noteq> None"
    unfolding managed_session_def using assms(1) by (intro spawn_managed_ends [of k]) simp_all
  then obtain m res h where run: "managed_session ending c E t parent sc = (m, Some (res, h))"
    by (cases "managed_session ending c E t parent sc") auto
  with spawn_managed_settles show ?thesis unfolding managed_session_def by blast
next
  case False
  with assms managed_session_ends show ?thesis by blast
qed

theorem managed_session_settles_witness:
  "\<exists>m res h. managed_session (DropsAt 30) (new_managed_child sample_startup) (machine 1000 0 [] False) linux []
     (streamed (Unbounded (NonEmptyReason [65]))) = (m, Some (res, h)) \<and> settles h"
  by (rule managed_session_settles [OF machine_paced, of _ _ _ 30]) (simp add: sample_live)



text \<open>
  C24. A managed child times out or is cancelled only for cause: a timeout only with the
  configured deadline and a clock reading past it, a cancellation only when the cancel channel
  had delivered a message or lost its sender.
\<close>

theorem managed_interrupted:
  assumes "spawn_managed E t parent sc = (Ok su, Some (Some (Err e), h))"
  shows "(\<forall>program d ev. e = Timeout program d ev \<longrightarrow>
      execution (c_state (streaming_inner sc)) = Deadline d \<and>
      (\<exists>started now. EvNow started \<in> set h \<and> EvNow now \<in> set h \<and> started + d \<le> now)) \<and>
    (\<forall>program ev. e = Cancelled program ev \<longrightarrow> (\<exists>x \<in> set h. cancels x))"
  using assms
proof (cases rule: spawn_managed_cases)
  case (settled su' r obs ev)
  then have eq: "classify_managed (fst (choose_primary obs None None))
      (PathDisplay (c_program (streaming_inner sc)))
      (execution_duration (execution (c_state (streaming_inner sc)))) ev = Err e"
    by simp
  have "execution (c_state (streaming_inner sc)) = Deadline d \<and>
      (\<exists>started now. EvNow started \<in> set h \<and> EvNow now \<in> set h \<and> started + d \<le> now)"
    if "e = Timeout program d ev'" for program d ev'
  proof -
    note timeout = classify_managed_Timeout [OF eq [unfolded that]]
    from settled(8) choose_primary_deadline timeout
    obtain d' started now where "execution (c_state (streaming_inner sc)) = Deadline d'"
      "EvNow started \<in> set h" "EvNow now \<in> set h" "started + d' \<le> now" by blast
    with timeout show ?thesis by (auto simp: execution_duration_def)
  qed
  moreover have "\<exists>x \<in> set h. cancels x" if "e = Cancelled program ev'" for program ev'
    using classify_managed_Cancelled [OF eq [unfolded that]] settled(7)
    by (auto simp: choose_primary_Cancelled)
  ultimately show ?thesis by blast
qed auto

theorem managed_interrupted_witness:
  "\<exists>su program ev h. spawn_managed (machine 0 0 [] True) linux [] (streamed one_second)
       = (Ok su, Some (Some (Err (Cancelled program ev)), h)) \<and> (\<exists>x \<in> set h. cancels x)"
proof -
  obtain su r h where run: "spawn_managed (machine 0 0 [] True) linux [] (streamed one_second) = (Ok su, Some (Some r, h))"
    "is_cancelled_error r"
    using managed_outcome_is_Some [OF sample_managed_cancelled] by blast
  then obtain program ev where "r = Err (Cancelled program ev)"
    by (cases r rule: is_cancelled_error.cases) auto
  with run managed_interrupted [of "machine 0 0 [] True" linux "[]" "streamed one_second" su
      "Cancelled program ev" h] show ?thesis
    by blast
qed

fun is_settled_cancellation :: "epi_error + managed_output \<Rightarrow> bool" where
  "is_settled_cancellation (Err (Cancelled _ ev)) \<longleftrightarrow> cancellation_settled ev"
| "is_settled_cancellation _ \<longleftrightarrow> False"

lemma sample_session_cancelled:
  obtains su program ev h where
    "managed_session (CancelsAt 12) (new_managed_child sample_startup) (machine 20 0 [] False) linux []
       (streamed one_second) = (Ok su, Some (Some (Err (Cancelled program ev)), h))" "cancellation_settled ev"
proof -
  have "managed_outcome_is is_settled_cancellation
      (managed_session (CancelsAt 12) (new_managed_child sample_startup) (machine 20 0 [] False) linux []
        (streamed one_second))"
    by code_simp
  then obtain su r h where run: "managed_session (CancelsAt 12) (new_managed_child sample_startup)
      (machine 20 0 [] False) linux [] (streamed one_second) = (Ok su, Some (Some r, h))"
    "is_settled_cancellation r"
    using managed_outcome_is_Some by blast
  then show ?thesis
    by (cases r rule: is_settled_cancellation.cases) (auto intro: that)
qed

text \<open>
  C25. What \<open>cancel\<close> answers is what happened to the child: after a session in which the handle was
  cancelled, an \<open>Ok\<close> answer means the supervisor signalled the group, reaped the leader with the
  reported status and completed the cleanup; any other outcome is returned as the error that the
  supervisor reported.
\<close>

theorem session_cancel_honest:
  assumes "managed_session (CancelsAt n) c E t parent sc = (Ok su, Some (Some r, h))"
    and "cancel (new_managed_child su) (settled_link r) = Finished answer link"
  shows "case answer of
      Ok ev \<Rightarrow> cleanup ev = CleanupComplete \<and> (\<exists>k. EvKill (su_id su) k \<in> set h) \<and>
        (\<exists>st. leader_status ev = Some st \<and> EvWait (su_id su) (Ok st) \<in> set h)
    | Err e \<Rightarrow> r = Err e"
proof (cases answer)
  case (Inl e)
  with assms(2) show ?thesis
    by (auto simp: settled_answers cancel_result_def split: sum.splits epi_error.splits if_splits)
next
  case (Inr ev)
  with assms cancel_answer_settled show ?thesis unfolding managed_session_def by auto
qed

theorem session_cancel_honest_witness:
  "\<exists>su program ev h link.
     managed_session (CancelsAt 12) (new_managed_child sample_startup) (machine 20 0 [] False) linux []
       (streamed one_second) = (Ok su, Some (Some (Err (Cancelled program ev)), h)) \<and>
     cancel (new_managed_child su) (settled_link (Err (Cancelled program ev))) = Finished (Ok ev) link \<and>
     (\<exists>st. leader_status ev = Some st \<and> EvWait (su_id su) (Ok st) \<in> set h)"
proof -
  obtain su program ev h where
    run: "managed_session (CancelsAt 12) (new_managed_child sample_startup) (machine 20 0 [] False) linux []
       (streamed one_second) = (Ok su, Some (Some (Err (Cancelled program ev)), h))" "cancellation_settled ev"
    by (rule sample_session_cancelled)
  then obtain link where
    ans: "cancel (new_managed_child su) (settled_link (Err (Cancelled program ev))) = Finished (Ok ev) link"
    by (simp add: settled_answers cancel_result_def)
  from session_cancel_honest [OF run(1) ans] run(1) ans show ?thesis by auto
qed

section \<open>The handle\<close>

definition finished_link :: "terminal_result option \<Rightarrow> bool \<Rightarrow> managed_link" where
  "finished_link sent panicked =
     \<lparr>lk_slot = sent, lk_sent = sent, lk_ended = Some panicked, lk_cancels = 0, lk_sender = True\<rparr>"

lemma finished_run:
  "managed_run sample_startup [SupervisorSends r, SupervisorEnds p]
     (Idle (new_managed_child sample_startup), finished_link (Some r) p)"
proof -
  let ?c = "Idle (new_managed_child sample_startup)"
  let ?lk = "new_link\<lparr>lk_slot := Some r, lk_sent := Some r\<rparr>"
  have "step (?c, new_link) (SupervisorSends r) (?c, ?lk)"
    by (rule sends) (simp_all add: new_link_def)
  from next_run [OF begin_run this] have "managed_run sample_startup [SupervisorSends r] (?c, ?lk)"
    by simp
  moreover have "step (?c, ?lk) (SupervisorEnds p) (?c, ?lk\<lparr>lk_ended := Some p\<rparr>)"
    by (rule ends) (simp add: new_link_def)
  ultimately have "managed_run sample_startup ([SupervisorSends r] @ [SupervisorEnds p])
      (?c, ?lk\<lparr>lk_ended := Some p\<rparr>)"
    by (rule next_run)
  then show ?thesis by (simp add: new_link_def finished_link_def)
qed

text \<open>
  C26. The terminal result is never lost, duplicated or changed: in every interleaving of the
  handle with the supervisor thread, each poll that reports something reports the one result
  the thread sent -- or, if it ended without sending, the channel failure -- and a wait or a
  cancel that returns, suspended in between or not, answers for that result, with a late panic
  turned into a failure that keeps the evidence.
\<close>

theorem handle_reports:
  assumes "managed_run su actions W" and "a \<in> set actions"
  shows "reported (su_id su) (snd W) a"
  using managed_run_reported [of su actions "fst W" "snd W"] assms by simp

text \<open>A result is sent and polled, the thread ends, and a wait returns.\<close>

theorem handle_reports_witness:
  "\<exists>lk. managed_run sample_startup
       [SupervisorSends (Err (Cancelled (LabelText ''x'') unknown_evidence)), SupervisorEnds True,
        Polls (Failed (Cancelled (LabelText ''x'') unknown_evidence)),
        Returns (WaitReply (Err (Cancelled (LabelText ''x'') unknown_evidence)))] (Gone, lk) \<and>
     expected_result 42 lk = Some (Err (Cancelled (LabelText ''x'') unknown_evidence)) \<and>
     reported 42 lk (Polls (Failed (Cancelled (LabelText ''x'') unknown_evidence))) \<and>
     reported 42 lk (Returns (WaitReply (Err (Cancelled (LabelText ''x'') unknown_evidence))))"
proof -
  let ?r = "Err (Cancelled (LabelText ''x'') unknown_evidence) :: terminal_result"
  let ?lk = "finished_link (Some ?r) True"
  obtain p c lk1 where poll: "poll (new_managed_child sample_startup) ?lk = (p, c, lk1)"
    by (cases "poll (new_managed_child sample_startup) ?lk") auto
  note P = poll_spec [OF managed_run_handle [OF finished_run] poll]
  have p: "p = Failed (Cancelled (LabelText ''x'') unknown_evidence)"
    and lk1: "lk_sent lk1 = Some ?r" "lk_ended lk1 = Some True"
    using P(1-3) by (simp_all add: finished_link_def expected_result_def)
  have polled: "managed_run sample_startup
      [SupervisorSends ?r, SupervisorEnds True, Polls (Failed (Cancelled (LabelText ''x'') unknown_evidence))]
      (Idle c, lk1)"
    using next_run [OF finished_run polls [OF poll]] by (simp add: p)
  have "call AskWait c lk1 = Finished (WaitReply ?r) (lk1\<lparr>lk_slot := None, lk_sender := False\<rparr>)"
    using call_ended [OF _ managed_run_handle [OF polled] lk1(2), where q = AskWait] lk1(1)
    by (simp add: expected_result_def joined_result_def del: call.simps)
  from next_run [OF polled returns [OF this]] have
    run: "managed_run sample_startup
       [SupervisorSends ?r, SupervisorEnds True, Polls (Failed (Cancelled (LabelText ''x'') unknown_evidence)),
        Returns (WaitReply ?r)] (Gone, lk1\<lparr>lk_slot := None, lk_sender := False\<rparr>)"
    by simp
  from handle_reports [OF run, of "Polls (Failed (Cancelled (LabelText ''x'') unknown_evidence))"]
    handle_reports [OF run, of "Returns (WaitReply ?r)"] run lk1 show ?thesis
    by (intro exI [of _ "lk1\<lparr>lk_slot := None, lk_sender := False\<rparr>"])
      (simp add: sample_startup_def expected_result_def)
qed

text \<open>
  A poll distinguishes the three states of a child: it is \<open>Running\<close> exactly while the
  thread has neither sent a result nor ended.
\<close>

theorem handle_poll:
  assumes "managed_run su actions (Idle c, lk)"
  shows "fst (poll c lk) = poll_of (expected_result (su_id su) lk) \<and>
    (fst (poll c lk) = Running \<longleftrightarrow> lk_sent lk = None \<and> lk_ended lk = None)"
proof -
  obtain p c' lk' where "poll c lk = (p, c', lk')" by (cases "poll c lk") auto
  with poll_spec(1) [OF managed_run_handle [OF assms]] show ?thesis
    by (auto simp: poll_of_Running expected_result_def split: option.split)
qed

theorem handle_poll_witness:
  "fst (poll (new_managed_child sample_startup)
      (finished_link (Some (Err (Cancelled (LabelText ''x'') unknown_evidence))) False))
     = Failed (Cancelled (LabelText ''x'') unknown_evidence)"
  using handle_poll [OF finished_run, of "Err (Cancelled (LabelText ''x'') unknown_evidence)" False]
  by (simp add: expected_result_def finished_link_def)

text \<open>
  C27. Waiting is suspended exactly until the supervisor thread has ended, and then returns its
  result: a wait that is called while the thread runs is suspended, whether or not the result was
  sent or polled before; a suspended call never returns while the thread runs; and when the thread
  has ended both a new wait and a suspended call return the answer for its result.
\<close>

theorem handle_wait:
  assumes "managed_run su actions (party, lk)"
  shows "case party of
      Idle c \<Rightarrow>
        ((\<exists>w lk' k. wait c lk = Suspended w lk' k) \<longleftrightarrow> lk_ended lk = None) \<and>
        (\<forall>p. lk_ended lk = Some p \<longrightarrow>
           (\<exists>lk'. wait c lk = Finished (joined_result (su_id su) p (the (expected_result (su_id su) lk))) lk'))
    | Calling q w k \<Rightarrow>
        (lk_ended lk = None \<and> can_resume w lk \<longrightarrow> (\<exists>lk' k'. k lk = Suspended ForThread lk' k')) \<and>
        (\<forall>p. lk_ended lk = Some p \<longrightarrow> can_resume w lk \<and>
           (\<exists>lk'. k lk = Finished (reply_to q (joined_result (su_id su) p (the (expected_result (su_id su) lk)))) lk'))
    | Gone \<Rightarrow> True"
proof (cases party)
  case (Idle c)
  with assms have h: "handle_ok su c lk" by (simp add: managed_run_handle)
  show ?thesis
  proof (cases "lk_ended lk")
    case None
    have "AskWait \<noteq> AskDrop" by simp
    from call_running [OF this h None] obtain w lk' k where "call AskWait c lk = Suspended w lk' k" .
    then have "\<exists>w lk' k. wait c lk = Suspended w lk' k" by (cases "wait c lk") simp_all
    with None Idle show ?thesis by simp
  next
    case (Some p)
    have "inj WaitReply" by (simp add: inj_def)
    from and_then_Finished [OF call_ended [OF _ h Some, where q = AskWait, unfolded call.simps reply_to.simps] this]
      Some Idle show ?thesis by simp
  qed
next
  case (Calling q w k)
  with assms have c: "calling_ok su q w k lk" by (simp add: managed_run_calling)
  show ?thesis
  proof (cases "lk_ended lk")
    case None
    have "\<exists>lk' k'. k lk = Suspended ForThread lk' k'" if "can_resume w lk"
      by (rule calling_running [OF c that None]) blast
    with None Calling show ?thesis by simp
  next
    case (Some p)
    with calling_ended [OF c Some] Calling show ?thesis
      by (auto simp: can_resume_def split: wait_for.split)
  qed
qed simp

theorem handle_wait_witness:
  "\<exists>w k lk lk'. managed_run sample_startup
       [Blocks AskWait, SupervisorSends (Err (Cancelled (LabelText ''x'') unknown_evidence)), SupervisorEnds True]
       (Calling AskWait w k, lk) \<and>
     k lk = Finished (WaitReply (Err (Cancelled (LabelText ''x'') unknown_evidence))) lk'"
proof -
  let ?r = "Err (Cancelled (LabelText ''x'') unknown_evidence) :: terminal_result"
  have "AskWait \<noteq> AskDrop" by simp
  from suspended_then_ended [OF this] obtain w lk k where
    run: "managed_run sample_startup [Blocks AskWait, SupervisorSends ?r, SupervisorEnds True] (Calling AskWait w k, lk)"
    and lk: "lk_sent lk = Some ?r" "lk_ended lk = Some True" .
  from handle_wait [OF run] lk obtain lk' where "k lk = Finished (WaitReply ?r) lk'"
    by (auto simp: expected_result_def joined_result_def)
  with run show ?thesis by blast
qed

text \<open>
  C28. What a cancel answers, in every interleaving of the handle with the thread of a managed
  child: when it returns \<open>Ok\<close>, the evidence is that of the thread's result and settled -- cleanup
  complete without failures, group signalled or already gone, leader reaped; otherwise the error is
  the thread's result, or a success that a late panic turned into a failure with its evidence. By
  then exactly one request was sent.
\<close>

theorem handle_cancel:
  assumes "managed_run su actions W" and "Returns (CancelReply answer) \<in> set actions"
    and "lk_sent (snd W) = Some r" and "spawn_managed E t parent sc = (Ok su, Some (Some r, h))"
  shows "lk_cancels (snd W) = 1 \<and>
    (case answer of
       Ok ev \<Rightarrow> managed_evidence r = Some ev \<and> settled_exit ev \<and> disposition (reap ev) = Reaped
     | Err e \<Rightarrow> r = Err e \<or>
         lk_ended (snd W) = Some True \<and>
         (\<exists>out source. r = Ok out \<and>
            e = SupervisionFailed (ManagedChildLabel (su_id su)) source (mo_evidence out)))"
proof -
  obtain w lk where W: "W = (w, lk)" by fastforce
  have one: "lk_cancels lk = 1"
    using managed_run_replied [of su actions w lk] assms(1,2) by (auto simp: replied_def W)
  have "reported (su_id su) lk (Returns (CancelReply answer))"
    using managed_run_reported [of su actions w lk] assms(1,2) by (auto simp: W)
  with assms(3) obtain p where p: "lk_ended lk = Some p"
    and a: "answer = cancel_result (joined_result (su_id su) p r)"
    by (auto simp: W expected_result_def)
  show ?thesis
  proof (cases answer)
    case (Inr ev)
    then have "cancel_result r = Ok ev"
      using a by (auto simp: joined_result_def cancel_result_def split: sum.splits if_splits)
    with cancel_result_settled [OF assms(4)] Inr one show ?thesis by (simp add: W)
  next
    case (Inl e)
    with a p one show ?thesis
      by (cases r) (auto simp: W joined_result_def cancel_result_def split: if_splits epi_error.splits)
  qed
qed

text \<open>The supervisor is cancelled while it runs, and settles.\<close>

theorem handle_cancel_witness:
  "\<exists>su r ev lk. managed_run su
       [Blocks AskCancel, SupervisorSends r, SupervisorEnds False, Returns (CancelReply (Ok ev))] (Gone, lk) \<and>
     lk_cancels lk = 1 \<and> settled_exit ev"
proof -
  obtain su program ev h where
    run: "managed_session (CancelsAt 12) (new_managed_child sample_startup) (machine 20 0 [] False) linux []
       (streamed one_second) = (Ok su, Some (Some (Err (Cancelled program ev)), h))" "cancellation_settled ev"
    by (rule sample_session_cancelled)
  let ?r = "Err (Cancelled program ev) :: terminal_result"
  have "AskCancel \<noteq> AskDrop" by simp
  from suspended_then_answered [OF this, where su = su and r = ?r and p = False] obtain lk where
    lk: "managed_run su [Blocks AskCancel, SupervisorSends ?r, SupervisorEnds False,
      Returns (CancelReply (cancel_result (joined_result (su_id su) False ?r)))] (Gone, lk)" "lk_sent lk = Some ?r"
    by auto
  have ans: "cancel_result (joined_result (su_id su) False ?r) = Ok ev"
    using run(2) by (simp add: cancel_result_def joined_result_def)
  from handle_cancel [OF lk(1) _ _ run(1) [unfolded managed_session_def], of "Ok ev"] lk ans
  have "lk_cancels lk = 1 \<and> settled_exit ev" by simp
  with lk(1) ans show ?thesis by auto
qed

text \<open>
  C29. Dropping a handle never waits for the supervisor: the drop returns in every state a run
  can reach, also while the thread runs. It gives up the cancel sender and requests cancellation
  exactly when no poll had reported a result, so a thread that has neither sent a result nor
  ended always gets the request; and it changes nothing the thread did.
\<close>

theorem handle_drop:
  assumes "managed_run su actions (Idle c, lk)"
  shows "\<exists>lk'. drop_managed c lk = Finished () lk' \<and> \<not> lk_sender lk' \<and>
    lk_cancels lk' = (if \<exists>p. Polls p \<in> set actions \<and> p \<noteq> Running then 0 else 1) \<and>
    (lk_sent lk = None \<and> lk_ended lk = None \<longrightarrow> cancel_answer lk' 0 = Received) \<and>
    lk_sent lk' = lk_sent lk \<and> lk_ended lk' = lk_ended lk"
proof -
  note h = managed_run_handle [OF assms] and polled = managed_run_polled [OF assms]
  have "mc_result c = None" if "lk_sent lk = None" "lk_ended lk = None"
    using h that by (auto simp: handle_ok_def expected_result_def)
  with h polled show ?thesis
    by (auto simp: drop_managed_def send_cancel_def handle_ok_def cancel_answer_def Let_def)
qed

text \<open>The supervisor is still running.\<close>

theorem handle_drop_witness:
  "\<exists>lk'. drop_managed (new_managed_child sample_startup) new_link = Finished () lk' \<and>
     lk_ended lk' = None \<and> cancel_answer lk' 0 = Received"
  using handle_drop [OF begin_run [of sample_startup]] by (auto simp: new_link_def)

text \<open>
  C40. A request is in the channel before its caller waits: whenever a cancel is suspended, in any
  interleaving, the supervisor receives its message, and whenever a wait is suspended it receives
  none, the sender being still there. Drops are never suspended.
\<close>

theorem suspended_calls:
  assumes "managed_run su actions (Calling q w k, lk)"
  shows "q \<noteq> AskDrop \<and> cancel_answer lk 0 = (if q = AskCancel then Received else NoMessage)"
  using managed_run_calling [OF assms] by (auto simp: calling_ok_def cancel_answer_def)

theorem suspended_calls_witness:
  "\<exists>w k lk. managed_run sample_startup [Blocks AskCancel] (Calling AskCancel w k, lk) \<and>
     lk_ended lk = None \<and> cancel_answer lk 0 = Received"
proof -
  have "AskCancel \<noteq> AskDrop" by simp
  from suspended_run [OF this] obtain w lk k where
    run: "managed_run sample_startup [Blocks AskCancel] (Calling AskCancel w k, lk)" "lk_ended lk = None" .
  with suspended_calls [OF run(1)] show ?thesis by auto
qed

end
