(* ===== verification/Builder_Types.thy ===== *)
theory Builder_Types
  imports Command_Builder
begin

text \<open>
  The invariants the types of the builder carry. A \<open>NonEmptyReason\<close> has no constructor but the
  validating one and a \<open>BTreeSet\<close> is sorted, so every policy value a caller can come by is well
  formed; every builder call keeps a command well formed, and the typestate of a command says
  which validation it has passed. Values and commands are described by the calls that make them.
\<close>

section \<open>Well-formed values\<close>

definition reason_wf :: "non_empty_reason \<Rightarrow> bool" where
  "reason_wf r \<longleftrightarrow> trim (reason_as_str r) \<noteq> []"

fun environment_wf :: "environment_policy \<Rightarrow> bool" where
  "environment_wf Clean \<longleftrightarrow> True"
| "environment_wf (Allowlist keys) \<longleftrightarrow> bt_wf keys"
| "environment_wf (InheritAll r) \<longleftrightarrow> reason_wf r"

fun capture_wf :: "capture_policy \<Rightarrow> bool" where
  "capture_wf (Bounded _ _) \<longleftrightarrow> True"
| "capture_wf (UnboundedCapture r) \<longleftrightarrow> reason_wf r"

text \<open>A validated deadline is not the maximal duration and ends within the clock's range.\<close>

fun execution_wf :: "nat \<Rightarrow> execution_policy \<Rightarrow> bool" where
  "execution_wf limit (Deadline d) \<longleftrightarrow> d \<noteq> duration_max \<and> d < limit"
| "execution_wf limit (Unbounded r) \<longleftrightarrow> reason_wf r"

definition command_wf :: "('s \<Rightarrow> bool) \<Rightarrow> 's command \<Rightarrow> bool" where
  "command_wf state_wf c \<longleftrightarrow>
     environment_wf (c_environment c) \<and> capture_wf (c_stdout_capture c) \<and>
     capture_wf (c_stderr_capture c) \<and> state_wf (c_state c)"

definition ready_wf :: "nat \<Rightarrow> ready \<Rightarrow> bool" where
  "ready_wf limit r \<longleftrightarrow> execution_wf limit (ready_execution r)"

section \<open>Values and commands a caller can make\<close>

text \<open>The enums are public, so their variants can be used directly; a reason cannot.\<close>

inductive environment_value :: "environment_policy \<Rightarrow> bool" where
  "environment_value env_policy_default"
| "environment_value clean"
| "environment_value (allowlist keys)"
| "inherit_all reason = Ok p \<Longrightarrow> environment_value p"
| "environment_value (Allowlist (bset_collect keys))"
| "reason_new reason = Ok r \<Longrightarrow> environment_value (InheritAll r)"

inductive capture_value :: "capture_policy \<Rightarrow> bool" where
  "capture_value capture_policy_default"
| "capture_value (bounded limit)"
| "capture_value (Policy.truncate limit)"
| "capture_unbounded reason = Ok p \<Longrightarrow> capture_value p"
| "capture_value (Bounded limit overflow)"
| "reason_new reason = Ok r \<Longrightarrow> capture_value (UnboundedCapture r)"

text \<open>One builder call, available in every typestate.\<close>

inductive edits :: "'s command \<Rightarrow> 's command \<Rightarrow> bool" where
  edit_arg: "edits c (command_arg c a)"
| edit_args: "edits c (command_args c as)"
| edit_environment: "environment_value p \<Longrightarrow> edits c (command_environment c p)"
| edit_clean: "edits c (clean_environment c)"
| edit_allow: "edits c (allow_environment c keys)"
| edit_inherit: "inherit_environment c reason = Ok c' \<Longrightarrow> edits c c'"
| edit_env: "edits c (command_env c k v)"
| edit_env_remove: "edits c (command_env_remove c k)"
| edit_envs: "edits c (command_envs c vars)"
| edit_cwd: "edits c (command_cwd c dir)"
| edit_current_dir: "edits c (current_dir c dir)"
| edit_stdin: "edits c (command_stdin c io)"
| edit_stdout: "edits c (command_stdout c io)"
| edit_stderr: "edits c (command_stderr c io)"
| edit_capture_stdout: "capture_value p \<Longrightarrow> edits c (capture_stdout c p)"
| edit_capture_stderr: "capture_value p \<Longrightarrow> edits c (capture_stderr c p)"

inductive draft_built :: "draft command \<Rightarrow> bool" where
  draft_new: "draft_built (command_new program)"
| draft_edited: "draft_built c \<Longrightarrow> edits c c' \<Longrightarrow> draft_built c'"

inductive ready_built :: "nat \<Rightarrow> ready command \<Rightarrow> bool" for limit where
  ready_deadline: "draft_built c \<Longrightarrow> command_deadline limit now c d = Ok c' \<Longrightarrow> ready_built limit c'"
| ready_unbounded: "draft_built c \<Longrightarrow> command_unbounded c reason = Ok c' \<Longrightarrow> ready_built limit c'"
| ready_edited: "ready_built limit c \<Longrightarrow> edits c c' \<Longrightarrow> ready_built limit c'"

inductive_cases editsE: "edits c c'"

section \<open>Preservation\<close>

lemma reason_new_wf: "reason_new reason = Ok r \<Longrightarrow> reason_wf r"
  by (auto simp: reason_new_def reason_wf_def reason_as_str_def split: if_splits)

lemma environment_value_wf: "environment_value p \<Longrightarrow> environment_wf p"
proof (induction rule: environment_value.induct)
  case (4 reason p)
  then show ?case by (cases "reason_new reason") (auto simp: inherit_all_def reason_new_wf)
qed (auto simp: env_policy_default_def clean_def allowlist_def bt_wf_collect reason_new_wf)

lemma capture_value_wf: "capture_value p \<Longrightarrow> capture_wf p"
proof (induction rule: capture_value.induct)
  case (4 reason p)
  then show ?case by (cases "reason_new reason") (auto simp: capture_unbounded_def reason_new_wf)
qed (auto simp: capture_policy_default_def bounded_def Policy.truncate_def reason_new_wf)

lemma command_envs_frame:
  "c_environment (command_envs c vars) = c_environment c"
  "c_stdout_capture (command_envs c vars) = c_stdout_capture c"
  "c_stderr_capture (command_envs c vars) = c_stderr_capture c"
  "c_state (command_envs c vars) = c_state c"
  unfolding command_envs_def by (induction vars arbitrary: c) auto

lemmas builder_defs =
  command_arg_def command_args_def command_environment_def clean_environment_def
  allow_environment_def inherit_environment_def command_env_def command_env_remove_def
  command_cwd_def current_dir_def command_stdin_def command_stdout_def command_stderr_def
  capture_stdout_def capture_stderr_def

lemma edits_wf:
  assumes "edits c c'" and "command_wf sw c"
  shows "command_wf sw c'"
  using assms(1)
proof (cases rule: edits.cases)
  case (edit_inherit reason)
  then obtain p where p: "inherit_all reason = Ok p" "c' = c\<lparr>c_environment := p\<rparr>"
    by (auto simp: inherit_environment_def split: sum.splits)
  then have "environment_wf p" by (intro environment_value_wf environment_value.intros(4))
  with assms(2) p show ?thesis by (simp add: command_wf_def)
qed (use assms(2) in \<open>auto simp: builder_defs command_wf_def command_envs_frame environment_value_wf
      capture_value_wf allowlist_def bt_wf_collect\<close>)

lemma edits_state: "edits c c' \<Longrightarrow> c_state c' = c_state c"
  by (erule edits.cases) (auto simp: builder_defs command_envs_frame split: sum.splits)

lemma command_new_wf: "command_wf (\<lambda>_. True) (command_new program)"
  by (simp add: command_wf_def command_new_def env_policy_default_def capture_policy_default_def
      bounded_def)

lemma draft_built_wf: "draft_built c \<Longrightarrow> command_wf (\<lambda>_. True) c"
  by (induction rule: draft_built.induct) (auto intro: edits_wf command_new_wf)

lemma into_state_wf: "command_wf sw c \<Longrightarrow> sw' st \<Longrightarrow> command_wf sw' (into_state c st)"
  by (simp add: command_wf_def into_state_def)

lemma ready_built_wf: "ready_built limit c \<Longrightarrow> command_wf (ready_wf limit) c"
proof (induction rule: ready_built.induct)
  case (ready_deadline c now d c')
  have "c' = into_state c (ready_new (Deadline d))" "d \<noteq> duration_max" "now + d < limit"
    using ready_deadline(2)
    by (auto simp: command_deadline_def validate_deadline_def checked_add_None split: if_splits)
  moreover from this have "ready_wf limit (ready_new (Deadline d))"
    by (simp add: ready_wf_def ready_new_def ready_execution_def)
  ultimately show ?case
    using into_state_wf [OF draft_built_wf [OF ready_deadline(1)]] by simp
next
  case (ready_unbounded c reason c')
  then obtain r where "reason_new reason = Ok r" "c' = into_state c (ready_new (Unbounded r))"
    by (auto simp: command_unbounded_def split: sum.splits)
  moreover from this have "ready_wf limit (ready_new (Unbounded r))"
    by (simp add: ready_wf_def ready_new_def ready_execution_def reason_new_wf)
  ultimately show ?case
    using into_state_wf [OF draft_built_wf [OF ready_unbounded(1)]] by simp
next
  case (ready_edited c c')
  then show ?case using edits_wf by blast
qed

end
