(* ===== verification/Captured_Text.thy ===== *)
theory Captured_Text
  imports Evidence "HOL-Library.Sublist"
begin

text \<open>
  The UTF-8 views of captured output (\<open>CapturedStream::as_str\<close>, \<open>Output::stdout_str\<close> and
  \<open>Output::stderr_str\<close> in \<open>output.rs\<close>): the standard library's validation of a byte slice,
  with the position and the kind of the first defect, and what it says about a slice that a
  capture limit cut inside a character.
\<close>

section \<open>Encoding\<close>

text \<open>A \<open>char\<close> is a Unicode scalar value; its encoding has one to four bytes.\<close>

definition is_scalar :: "nat \<Rightarrow> bool" where
  "is_scalar c \<longleftrightarrow> c < 0xD800 \<or> 0xE000 \<le> c \<and> c < 0x110000"

definition encode_char :: "nat \<Rightarrow> nat list" where
  "encode_char c =
     (if c < 0x80 then [c]
      else if c < 0x800 then [0xC0 + c div 64, 0x80 + c mod 64]
      else if c < 0x10000 then [0xE0 + c div 4096, 0x80 + c div 64 mod 64, 0x80 + c mod 64]
      else [0xF0 + c div 262144, 0x80 + c div 4096 mod 64, 0x80 + c div 64 mod 64, 0x80 + c mod 64])"

definition encode_chars :: "utext \<Rightarrow> nat list" where
  "encode_chars s = concat (map encode_char s)"

definition encode_utf8 :: "utext \<Rightarrow> byte list" where
  "encode_utf8 s = map word_of_nat (encode_chars s)"

section \<open>Validation\<close>

record utf8_error =
  valid_up_to :: nat
  error_len :: "nat option"

text \<open>
  One character at the front of a non-empty slice, or the length of the invalid sequence;
  \<open>None\<close> is the slice that ends before its last character does. The second byte of a long
  sequence is restricted so that overlong forms, surrogates and values past the last plane are
  refused.
\<close>

definition continuation :: "nat \<Rightarrow> bool" where
  "continuation b \<longleftrightarrow> 0x80 \<le> b \<and> b < 0xC0"

definition second_byte :: "nat \<Rightarrow> nat \<Rightarrow> bool" where
  "second_byte first b \<longleftrightarrow>
     (if first = 0xE0 then 0xA0 \<le> b \<and> b < 0xC0
      else if first = 0xED then 0x80 \<le> b \<and> b < 0xA0
      else if first = 0xF0 then 0x90 \<le> b \<and> b < 0xC0
      else if first = 0xF4 then 0x80 \<le> b \<and> b < 0x90
      else continuation b)"

definition utf8_char_width :: "nat \<Rightarrow> nat" where
  "utf8_char_width b =
     (if b < 0x80 then 1 else if b < 0xC2 then 0 else if b < 0xE0 then 2
      else if b < 0xF0 then 3 else if b < 0xF5 then 4 else 0)"

text \<open>The bytes after the first one, \<open>i\<close> of which have been accepted.\<close>

fun tail_bytes :: "nat \<Rightarrow> nat \<Rightarrow> nat \<Rightarrow> nat \<Rightarrow> nat list \<Rightarrow> nat option + nat \<times> nat list" where
  "tail_bytes first 0 i acc bs = Ok (acc, bs)"
| "tail_bytes first (Suc n) i acc [] = Err None"
| "tail_bytes first (Suc n) i acc (b # bs) =
     (if (if i = 1 then second_byte first b else continuation b)
      then tail_bytes first n (Suc i) (acc * 64 + b mod 64) bs
      else Err (Some i))"

lemma tail_bytes_code [code]:
  "tail_bytes first n i acc bs =
     (if n = 0 then Ok (acc, bs)
      else (case bs of
              [] \<Rightarrow> Err None
            | b # bs \<Rightarrow>
                if (if i = 1 then second_byte first b else continuation b)
                then tail_bytes first (n - 1) (Suc i) (acc * 64 + b mod 64) bs
                else Err (Some i)))"
  by (cases n; cases bs) simp_all

definition first_char :: "nat \<Rightarrow> nat list \<Rightarrow> nat option + nat \<times> nat list" where
  "first_char b bs =
     (let w = utf8_char_width b in
      if w = 0 then Err (Some 1)
      else tail_bytes b (w - 1) 1
             (if w = 1 then b else if w = 2 then b mod 32 else if w = 3 then b mod 16 else b mod 8) bs)"

lemma tail_bytes_unfold:
  "tail_bytes first 1 i acc bs = tail_bytes first (Suc 0) i acc bs"
  "tail_bytes first 2 i acc bs = tail_bytes first (Suc (Suc 0)) i acc bs"
  "tail_bytes first 3 i acc bs = tail_bytes first (Suc (Suc (Suc 0))) i acc bs"
  by (simp_all add: numeral_eq_Suc)

lemma tail_bytes_length:
  "tail_bytes first n i acc bs = Ok (c, rest) \<Longrightarrow> length bs = n + length rest"
  by (induction first n i acc bs rule: tail_bytes.induct) (auto split: if_splits)

function from_utf8_at :: "nat \<Rightarrow> nat list \<Rightarrow> utf8_error + utext" where
  "from_utf8_at i [] = Ok []"
| "from_utf8_at i (b # bs) =
     (case first_char b bs of
        Err l \<Rightarrow> Err \<lparr>valid_up_to = i, error_len = l\<rparr>
      | Ok (c, rest) \<Rightarrow>
          map_sum id (Cons c) (from_utf8_at (i + (1 + length bs - length rest)) rest))"
  by pat_completeness auto
termination
  by (relation "measure (\<lambda>(i, bs). length bs)")
    (auto simp: first_char_def Let_def dest!: tail_bytes_length split: if_splits)

definition from_utf8 :: "byte list \<Rightarrow> utf8_error + utext" where
  "from_utf8 bs = from_utf8_at 0 (map unat bs)"

section \<open>The views\<close>

definition captured_as_str :: "captured_stream \<Rightarrow> utf8_error + utext" where
  "captured_as_str c = from_utf8 (cs_bytes c)"

definition stdout_str :: "run_output \<Rightarrow> utf8_error + utext" where
  "stdout_str out = captured_as_str (captured (le_stdout (out_evidence out)))"

definition stderr_str :: "run_output \<Rightarrow> utf8_error + utext" where
  "stderr_str out = captured_as_str (captured (le_stderr (out_evidence out)))"

section \<open>One character\<close>

text \<open>A character in its base-64 digits, so that its bounds become linear.\<close>

lemma base64_digits:
  fixes c :: nat
  obtains p q r s where "c = p * 262144 + q * 4096 + r * 64 + s" "q < 64" "r < 64" "s < 64"
    "c div 262144 = p" "c div 4096 = p * 64 + q" "c div 64 = p * 4096 + q * 64 + r"
    "c div 4096 mod 64 = q" "c div 64 mod 64 = r" "c mod 64 = s"
proof -
  define a where "a = c div 64"
  define b where "b = a div 64"
  have d: "c div 64 = a" "c div 4096 = b" "c div 262144 = b div 64"
    by (simp_all add: a_def b_def flip: div_mult2_eq)
  have "c = a * 64 + c mod 64" "a = b * 64 + a mod 64" "b = b div 64 * 64 + b mod 64"
    by (simp_all add: a_def b_def)
  then have "c = b div 64 * 262144 + b mod 64 * 4096 + a mod 64 * 64 + c mod 64"
    "a = b div 64 * 4096 + b mod 64 * 64 + a mod 64" "b = b div 64 * 64 + b mod 64"
    by linarith+
  then show ?thesis
    by (intro that [of "b div 64" "b mod 64" "a mod 64" "c mod 64"]) (simp_all add: d)
qed

lemma tagged_digits:
  fixes p q r s :: nat
  shows "r < 32 \<Longrightarrow> (0xC0 + r) mod 32 = r" "q < 16 \<Longrightarrow> (0xE0 + q) mod 16 = q"
    "p < 8 \<Longrightarrow> (0xF0 + p) mod 8 = p" "s < 64 \<Longrightarrow> (0x80 + s) mod 64 = s"
  using mod_mult_self3 [of 6 32 r] mod_mult_self3 [of 14 16 q] mod_mult_self3 [of 30 8 p]
    mod_mult_self3 [of 2 64 s] by simp_all

lemmas first_char_unfold =
  first_char_def utf8_char_width_def Let_def tail_bytes_unfold second_byte_def continuation_def
  tagged_digits

lemma first_char_encode:
  assumes "is_scalar c"
  shows "\<exists>b bs. encode_char c = b # bs \<and> first_char b (bs @ rest) = Ok (c, rest)"
proof -
  obtain p q r s where c: "c = p * 262144 + q * 4096 + r * 64 + s" "q < 64" "r < 64" "s < 64"
    and d: "c div 262144 = p" "c div 4096 = p * 64 + q" "c div 64 = p * 4096 + q * 64 + r"
    "c div 4096 mod 64 = q" "c div 64 mod 64 = r" "c mod 64 = s"
    by (rule base64_digits)
  consider "c < 0x80" | "0x80 \<le> c" "c < 0x800" | "0x800 \<le> c" "c < 0x10000" | "0x10000 \<le> c"
    by linarith
  then show ?thesis
  proof cases
    case 1
    then show ?thesis by (simp add: encode_char_def first_char_def utf8_char_width_def Let_def)
  next
    case 2
    with c have "p = 0" "q = 0" "r < 32" by linarith+
    moreover from this c 2 have "2 \<le> r" by linarith
    ultimately show ?thesis
      using d 2 c(4) c(1) [symmetric] by (simp add: encode_char_def first_char_unfold)
  next
    case 3
    with c have p: "p = 0" "q < 16" by linarith+
    with c 3 have "q = 0 \<Longrightarrow> 32 \<le> r" by linarith
    moreover have "c < 0xD800 \<or> 0xE000 \<le> c" using assms by (auto simp: is_scalar_def)
    moreover from this p c have "q = 13 \<Longrightarrow> r < 32" by linarith
    ultimately show ?thesis
      using d 3 c(2-4) c(1) [symmetric] by (simp add: encode_char_def first_char_unfold p)
  next
    case 4
    with assms c have "p < 5" "p = 0 \<Longrightarrow> 16 \<le> q" "p = 4 \<Longrightarrow> q < 16"
      by (auto simp: is_scalar_def)
    with d 4 c(2-4) c(1) [symmetric] show ?thesis
      by (simp add: encode_char_def first_char_unfold)
  qed
qed

text \<open>The converse: an accepted character is the encoding of the scalar value it stands for.\<close>

lemma base64_append:
  fixes x s :: nat
  assumes "s < 64"
  shows "(x * 64 + s) div 64 = x" "(x * 64 + s) mod 64 = s"
    "(x * 64 + s) div 4096 = x div 64" "(x * 64 + s) div 262144 = x div 4096"
proof -
  show one: "(x * 64 + s) div 64 = x" "(x * 64 + s) mod 64 = s" using assms by simp_all
  show "(x * 64 + s) div 4096 = x div 64" "(x * 64 + s) div 262144 = x div 4096"
    using div_mult2_eq [of "x * 64 + s" 64 64] div_mult2_eq [of "x * 64 + s" 64 4096] one
    by simp_all
qed

lemma continuation_byte: "continuation b \<Longrightarrow> \<exists>s<64. b = 0x80 + s"
  by (rule exI [of _ "b - 0x80"]) (auto simp: continuation_def)

lemma second_byte_continuation: "second_byte first b \<Longrightarrow> continuation b"
  by (auto simp: second_byte_def continuation_def split: if_splits)

lemma tail_bytes_Ok:
  "tail_bytes first (Suc n) i acc bs = Ok r \<longleftrightarrow>
     (\<exists>b bs'. bs = b # bs' \<and> (if i = 1 then second_byte first b else continuation b) \<and>
        tail_bytes first n (Suc i) (acc * 64 + b mod 64) bs' = Ok r)"
  by (cases bs) auto

lemma two_bytes:
  assumes "first_char b bs = Ok (c, rest)" "0xC2 \<le> b" "b < 0xE0"
  shows "is_scalar c \<and> b # bs = encode_char c @ rest"
proof -
  define r where "r = b - 0xC0"
  have b: "b = 0xC0 + r" "2 \<le> r" "r < 32" using assms(2,3) by (auto simp: r_def)
  have w: "utf8_char_width b = 2" using assms(2,3) by (simp add: utf8_char_width_def)
  have "tail_bytes b (Suc 0) 1 r bs = Ok (c, rest)"
    using assms(1) b w by (simp add: first_char_def Let_def tail_bytes_unfold tagged_digits b)
  then obtain s where s: "s < 64" "bs = (0x80 + s) # rest" "c = r * 64 + s"
    by (auto simp: tail_bytes_Ok tagged_digits dest!: second_byte_continuation continuation_byte)
  then have "encode_char c = [b, 0x80 + s]"
    using b by (simp add: encode_char_def base64_append)
  with s b show ?thesis by (simp add: is_scalar_def)
qed

lemma three_bytes:
  assumes "first_char b bs = Ok (c, rest)" "0xE0 \<le> b" "b < 0xF0"
  shows "is_scalar c \<and> b # bs = encode_char c @ rest"
proof -
  define q where "q = b - 0xE0"
  have b: "b = 0xE0 + q" "q < 16" using assms(2,3) by (auto simp: q_def)
  have w: "utf8_char_width b = 3" using assms(2,3) by (simp add: utf8_char_width_def)
  have "tail_bytes b (Suc (Suc 0)) 1 q bs = Ok (c, rest)"
    using assms(1) b w by (simp add: first_char_def Let_def tail_bytes_unfold tagged_digits b)
  then obtain x y where x: "second_byte b x" and y: "continuation y" and "bs = x # y # rest"
    "c = (q * 64 + x mod 64) * 64 + y mod 64"
    by (auto simp: tail_bytes_Ok)
  moreover obtain r where "r < 64" "x = 0x80 + r"
    using second_byte_continuation [OF x] continuation_byte by blast
  moreover obtain s where "s < 64" "y = 0x80 + s"
    using y continuation_byte by blast
  ultimately have r: "r < 64" "second_byte b (0x80 + r)" and s: "s < 64"
    and bs: "bs = (0x80 + r) # (0x80 + s) # rest" and c: "c = (q * 64 + r) * 64 + s"
    using x by (simp_all add: tagged_digits)
  have range: "q = 0 \<Longrightarrow> 32 \<le> r" "q = 13 \<Longrightarrow> r < 32"
    using r by (auto simp: second_byte_def b)
  have low: "0x800 \<le> c" "c < 0x10000"
    using range b(2) r(1) s by (cases "q = 0"; simp add: c)+
  have "is_scalar c"
    using range b(2) r(1) s by (cases "q < 13"; cases "q = 13"; simp add: is_scalar_def c)
  moreover have "encode_char c = [b, 0x80 + r, 0x80 + s]"
    using low b base64_append [OF s, of "q * 64 + r", folded c] base64_append [OF r(1), of q]
    by (simp add: encode_char_def)
  ultimately show ?thesis by (simp add: bs)
qed

lemma four_bytes:
  assumes "first_char b bs = Ok (c, rest)" "0xF0 \<le> b" "b < 0xF5"
  shows "is_scalar c \<and> b # bs = encode_char c @ rest"
proof -
  define p where "p = b - 0xF0"
  have b: "b = 0xF0 + p" "p < 5" using assms(2,3) by (auto simp: p_def)
  have w: "utf8_char_width b = 4" using assms(2,3) by (simp add: utf8_char_width_def)
  have "tail_bytes b (Suc (Suc (Suc 0))) 1 p bs = Ok (c, rest)"
    using assms(1) b w tagged_digits(3) [of p]
    by (simp add: first_char_def Let_def tail_bytes_unfold)
  then obtain x y z where x: "second_byte b x" and y: "continuation y" "continuation z"
    and "bs = x # y # z # rest" "c = ((p * 64 + x mod 64) * 64 + y mod 64) * 64 + z mod 64"
    by (auto simp: tail_bytes_Ok)
  moreover obtain q where "q < 64" "x = 0x80 + q"
    using second_byte_continuation [OF x] continuation_byte by blast
  moreover obtain r s where "r < 64" "y = 0x80 + r" "s < 64" "z = 0x80 + s"
    using y continuation_byte by meson
  ultimately have q: "q < 64" "second_byte b (0x80 + q)" and r: "r < 64" and s: "s < 64"
    and bs: "bs = (0x80 + q) # (0x80 + r) # (0x80 + s) # rest"
    and c: "c = ((p * 64 + q) * 64 + r) * 64 + s"
    using x by (simp_all add: tagged_digits)
  have range: "p = 0 \<Longrightarrow> 16 \<le> q" "p = 4 \<Longrightarrow> q < 16"
    using q by (auto simp: second_byte_def b)
  have low: "0x10000 \<le> c"
    using range b(2) q(1) r s by (cases "p = 0") (simp_all add: c)
  have "c < 0x110000"
    using range b(2) q(1) r s by (cases "p = 4") (simp_all add: c)
  moreover have "encode_char c = [b, 0x80 + q, 0x80 + r, 0x80 + s]"
    using low b base64_append [OF s, of "(p * 64 + q) * 64 + r", folded c]
      base64_append [OF r, of "p * 64 + q"] base64_append [OF q(1), of p]
    by (simp add: encode_char_def)
  ultimately show ?thesis using low by (simp add: bs is_scalar_def)
qed

lemma first_char_decode:
  assumes "first_char b bs = Ok (c, rest)"
  shows "is_scalar c \<and> b # bs = encode_char c @ rest"
proof -
  consider "b < 0x80" | "0xC2 \<le> b" "b < 0xE0" | "0xE0 \<le> b" "b < 0xF0" | "0xF0 \<le> b" "b < 0xF5"
    using assms by (force simp: first_char_def utf8_char_width_def Let_def split: if_splits)
  then show ?thesis
  proof cases
    case 1
    with assms show ?thesis
      by (auto simp: first_char_unfold encode_char_def is_scalar_def)
  qed (use assms two_bytes three_bytes four_bytes in blast)+
qed

section \<open>Whole slices\<close>

lemma encode_chars_simps [simp]:
  "encode_chars [] = []" "encode_chars (c # s) = encode_char c @ encode_chars s"
  by (simp_all add: encode_chars_def)

lemma encode_char_bytes: "is_scalar c \<Longrightarrow> b \<in> set (encode_char c) \<Longrightarrow> b < 256"
  by (auto simp: encode_char_def is_scalar_def split: if_splits)

lemma unat_encode_utf8: "list_all is_scalar s \<Longrightarrow> map unat (encode_utf8 s) = encode_chars s"
proof -
  have "list_all is_scalar s \<Longrightarrow> \<forall>b \<in> set (encode_chars s). b < 256"
    using encode_char_bytes by (auto simp: encode_chars_def list_all_iff)
  then show "list_all is_scalar s \<Longrightarrow> map unat (encode_utf8 s) = encode_chars s"
    by (auto simp: encode_utf8_def unat_of_nat take_bit_nat_eq_self intro!: map_idI)
qed

lemma from_utf8_at_encode: "list_all is_scalar s \<Longrightarrow> from_utf8_at i (encode_chars s) = Ok s"
proof (induction s arbitrary: i)
  case (Cons c s)
  obtain b bs where "encode_char c = b # bs" "first_char b (bs @ encode_chars s) = Ok (c, encode_chars s)"
    using first_char_encode Cons.prems by fastforce
  then show ?case using Cons by simp
qed simp

lemma map_sum_Ok:
  assumes "map_sum f g r = Ok y"
  obtains x where "r = Ok x" "y = g x"
  using assms by (cases r) auto

lemma from_utf8_at_decode:
  "from_utf8_at i bs = Ok s \<Longrightarrow> list_all is_scalar s \<and> bs = encode_chars s"
proof (induction i bs arbitrary: s rule: from_utf8_at.induct)
  case (2 i b bs)
  from "2.prems" obtain c rest t where f: "first_char b bs = Ok (c, rest)"
    and t: "from_utf8_at (i + (1 + length bs - length rest)) rest = Ok t" and s: "s = c # t"
    by (cases "first_char b bs"; cases "snd (projr (first_char b bs))")
      (auto elim: map_sum_Ok)
  show ?case
    using "2.IH" [OF f refl t] first_char_decode [OF f] by (simp add: s)
qed simp

theorem from_utf8_Ok:
  "from_utf8 bs = Ok s \<longleftrightarrow> list_all is_scalar s \<and> bs = encode_utf8 s"
proof
  assume "from_utf8 bs = Ok s"
  then have s: "list_all is_scalar s" "map unat bs = encode_chars s"
    by (auto simp: from_utf8_def dest: from_utf8_at_decode)
  then have "encode_utf8 s = map word_of_nat (map unat bs)" by (simp add: encode_utf8_def)
  also have "\<dots> = bs" by (simp add: comp_def)
  finally show "list_all is_scalar s \<and> bs = encode_utf8 s" using s(1) by simp
next
  assume "list_all is_scalar s \<and> bs = encode_utf8 s"
  then show "from_utf8 bs = Ok s"
    by (simp add: from_utf8_def unat_encode_utf8 from_utf8_at_encode)
qed

section \<open>Slices cut inside a character\<close>

text \<open>
  A proper, non-empty prefix of an encoding is recognised as incomplete, never as invalid.
\<close>

lemma tail_bytes_append:
  "tail_bytes first n i acc (bs @ cs) = Ok (c, rest) \<Longrightarrow> length bs < n \<Longrightarrow>
   tail_bytes first n i acc bs = Err None"
proof (induction bs arbitrary: n i acc)
  case Nil
  then show ?case by (cases n) auto
next
  case (Cons b bs)
  then show ?case by (cases n) (auto split: if_splits)
qed

lemma first_char_cut:
  assumes "is_scalar c" and "prefix (b # bs) (encode_char c)" and "b # bs \<noteq> encode_char c"
  shows "first_char b bs = Err None"
proof -
  obtain zs where z: "encode_char c = b # bs @ zs" "zs \<noteq> []"
    using assms(2,3) by (auto simp: prefix_def)
  have f: "first_char b (bs @ zs) = Ok (c, [])"
    using first_char_encode [OF assms(1), of "[]"] z by auto
  have w: "utf8_char_width b \<noteq> 0" using f by (auto simp: first_char_def Let_def split: if_splits)
  with f have "length (bs @ zs) = utf8_char_width b - 1 + 0"
    by (auto simp: first_char_def Let_def dest!: tail_bytes_length)
  then have "length bs < utf8_char_width b - 1" using z(2) by (cases zs) auto
  with w f show ?thesis
    by (auto simp: first_char_def Let_def split del: if_split elim!: tail_bytes_append)
qed

definition cut_text :: "nat \<Rightarrow> utext \<Rightarrow> nat list \<Rightarrow> (utf8_error + utext) \<Rightarrow> bool" where
  "cut_text i u bs r \<longleftrightarrow>
     prefix (encode_chars u) bs \<and> length bs \<le> length (encode_chars u) + 3 \<and>
     r = (if bs = encode_chars u then Ok u
          else Err \<lparr>valid_up_to = i + length (encode_chars u), error_len = None\<rparr>)"

lemma encode_char_length: "encode_char c \<noteq> []" "length (encode_char c) \<le> 4"
  by (simp_all add: encode_char_def)

lemma from_utf8_at_cut:
  "list_all is_scalar s \<Longrightarrow> prefix bs (encode_chars s) \<Longrightarrow>
   \<exists>u. prefix u s \<and> cut_text i u bs (from_utf8_at i bs)"
proof (induction s arbitrary: bs i)
  case Nil
  then show ?case by (auto simp: cut_text_def)
next
  case (Cons c s)
  show ?case
  proof (cases "prefix (encode_char c) bs")
    case True
    then obtain rest where bs: "bs = encode_char c @ rest" by (auto simp: prefix_def)
    let ?i = "i + length (encode_char c)"
    from Cons bs obtain u where u: "prefix u s" "cut_text ?i u rest (from_utf8_at ?i rest)" by force
    obtain b cs where b: "encode_char c = b # cs" "first_char b (cs @ rest) = Ok (c, rest)"
      using first_char_encode Cons.prems(1) by fastforce
    then have "from_utf8_at i bs = map_sum id (Cons c) (from_utf8_at ?i rest)"
      by (simp add: bs)
    with u show ?thesis
      by (intro exI [of _ "c # u"]) (auto simp: cut_text_def bs)
  next
    case False
    then have p: "prefix bs (encode_char c)" "bs \<noteq> encode_char c"
      using Cons.prems(2) by (auto simp: prefix_append prefix_def) (metis append_eq_append_conv2)+
    have "length bs < length (encode_char c)"
      using p by (simp add: prefix_length_less strict_prefix_def)
    then have "length bs < 4"
      using encode_char_length(2) [of c] by simp
    then show ?thesis
      using p first_char_cut [of c] Cons.prems(1)
      by (intro exI [of _ "[]"], cases bs) (auto simp: cut_text_def)
  qed
qed

text \<open>
  What a prefix of valid text reads as: all of it, or a defect that is the end of the slice, at
  most three bytes after the last whole character.
\<close>

definition reads_as :: "utext \<Rightarrow> captured_stream \<Rightarrow> bool" where
  "reads_as u c \<longleftrightarrow>
     prefix (encode_utf8 u) (cs_bytes c) \<and> length (cs_bytes c) \<le> length (encode_utf8 u) + 3 \<and>
     captured_as_str c =
       (if cs_bytes c = encode_utf8 u then Ok u
        else Err \<lparr>valid_up_to = length (encode_utf8 u), error_len = None\<rparr>)"

lemma encode_utf8_length [simp]: "length (encode_utf8 u) = length (encode_chars u)"
  by (simp add: encode_utf8_def)

lemma prefix_of_text:
  assumes "list_all is_scalar s" and "prefix (cs_bytes c) (encode_utf8 s)"
  shows "\<exists>u. prefix u s \<and> reads_as u c"
proof -
  have "prefix (map unat (cs_bytes c)) (encode_chars s)"
    using assms(2) unat_encode_utf8 [OF assms(1)] by (metis map_mono_prefix)
  from from_utf8_at_cut [OF assms(1) this, of 0] obtain u where u: "prefix u s"
    and cut: "cut_text 0 u (map unat (cs_bytes c)) (from_utf8 (cs_bytes c))"
    by (auto simp: from_utf8_def)
  have "list_all is_scalar u"
    using assms(1) u by (auto simp: prefix_def)
  note enc = unat_encode_utf8 [OF this]
  have "inj (unat :: byte \<Rightarrow> nat)" by (rule injI) (simp add: word_unat_eq_iff)
  then have same: "map unat (cs_bytes c) = map unat (encode_utf8 u) \<longleftrightarrow> cs_bytes c = encode_utf8 u"
    by (simp add: inj_map_eq_map)
  have "prefix (encode_utf8 u) (cs_bytes c)"
  proof -
    obtain zs where "map unat (cs_bytes c) = map unat (encode_utf8 u) @ zs"
      using cut by (auto simp: cut_text_def enc prefix_def)
    then have "map unat (take (length (encode_utf8 u)) (cs_bytes c)) = map unat (encode_utf8 u)"
      by (simp flip: take_map)
    then have "take (length (encode_utf8 u)) (cs_bytes c) = encode_utf8 u"
      using \<open>inj unat\<close> by (simp only: inj_map_eq_map)
    then show ?thesis by (metis take_is_prefix)
  qed
  with u cut same show ?thesis
    by (intro exI [of _ u]) (auto simp: reads_as_def cut_text_def captured_as_str_def enc)
qed

end
