(* ===== verification/Messages.thy ===== *)
theory Messages
  imports Errors
begin

text \<open>
  What errors say (\<open>Display\<close> of \<open>Error\<close> and of \<open>PolicyViolation\<close>): the fixed text of every
  variant, with the values the formatter is handed. How the standard library renders such a
  value is left open; that no message is made from evidence, and so from captured bytes, shows
  in the pieces.
\<close>

section \<open>Pieces of a message\<close>

datatype piece =
  Fixed string
| ProgramName label
| Cause error_text
| DebugDuration duration
| DebugOsString os_string
| DebugStream stream_name
| DebugCapability capability
| Count nat

definition display_violation :: "policy_violation \<Rightarrow> piece list" where
  "display_violation v =
     (case v of
        EmptyReason \<Rightarrow> [Fixed ''exceptional policy reason must not be empty'']
      | DeadlineOverflow d \<Rightarrow>
          [Fixed ''deadline '', DebugDuration d, Fixed '' exceeds the monotonic clock domain'']
      | BareProgramWithoutPath program \<Rightarrow>
          [Fixed ''bare program '', DebugOsString program,
           Fixed '' requires PATH to be explicitly set or allowlisted'']
      | CapturePolicyWithStreaming stream \<Rightarrow>
          [Fixed ''non-default '', DebugStream stream,
           Fixed '' capture policy cannot be combined with managed streaming''])"

fun display_error :: "epi_error \<Rightarrow> piece list" where
  "display_error (InvalidPolicy v) = Fixed ''invalid invocation policy: '' # display_violation v"
| "display_error (UnsupportedCapability cap) =
     [Fixed ''unsupported invocation capability: '', DebugCapability cap]"
| "display_error (SpawnFailed program source) =
     [Fixed ''failed to spawn '', ProgramName program, Fixed '': '', Cause (io_text source)]"
| "display_error (SupervisorStartFailed program source) =
     [Fixed ''failed to start supervisor for '', ProgramName program, Fixed '': '', Cause (io_text source)]"
| "display_error (ReaperStartFailed program source) =
     [Fixed ''failed to start fallback reaper for '', ProgramName program, Fixed '': '', Cause (io_text source)]"
| "display_error (NonZeroExit program _) =
     [ProgramName program, Fixed '' exited with a non-zero status'']"
| "display_error (Timeout program d _) =
     [ProgramName program, Fixed '' exceeded its configured deadline of '', DebugDuration d]"
| "display_error (CaptureLimitExceeded program stream limit _) =
     [ProgramName program, Fixed '' exceeded the '', DebugStream stream, Fixed '' capture limit of '',
      Count (unat limit), Fixed '' bytes'']"
| "display_error (Cancelled program _) = [ProgramName program, Fixed '' was cancelled'']"
| "display_error (CaptureFailed program _) =
     [Fixed ''capture failed while executing '', ProgramName program]"
| "display_error (SupervisionFailed program source _) =
     [Fixed ''failed while supervising '', ProgramName program, Fixed '': '', Cause (io_text source)]"
| "display_error (LifecycleFailed program _) =
     [Fixed ''lifecycle cleanup failed while executing '', ProgramName program]"
| "display_error (CleanupIncompleteError program _) =
     [Fixed ''cleanup incomplete while executing '', ProgramName program]"

section \<open>A message and the evidence determine the error\<close>

text \<open>The category of an operating-system cause is the one thing its text does not show.\<close>

fun same_error :: "epi_error \<Rightarrow> epi_error \<Rightarrow> bool" where
  "same_error (SpawnFailed p e) (SpawnFailed q e') \<longleftrightarrow> p = q \<and> io_text e = io_text e'"
| "same_error (SupervisorStartFailed p e) (SupervisorStartFailed q e') \<longleftrightarrow> p = q \<and> io_text e = io_text e'"
| "same_error (ReaperStartFailed p e) (ReaperStartFailed q e') \<longleftrightarrow> p = q \<and> io_text e = io_text e'"
| "same_error (SupervisionFailed p e ev) (SupervisionFailed q e' ev') \<longleftrightarrow>
     p = q \<and> io_text e = io_text e' \<and> ev = ev'"
| "same_error a b \<longleftrightarrow> a = b"

lemma display_violation_inject: "display_violation v = display_violation w \<longleftrightarrow> v = w"
  by (cases v; cases w) (simp_all add: display_violation_def)

lemma display_error_determines:
  "display_error a = display_error b \<and> error_evidence a = error_evidence b \<longleftrightarrow> same_error a b"
  by (cases a; cases b) (auto simp: display_violation_inject word_unat_eq_iff)

end
