(* ===== verification/Component_Properties.thy ===== *)
theory Component_Properties
  imports Sample_Runs Builder_Types Captured_Text Messages
begin

text \<open>
  The properties of the components: the command builder and its policies, the capture of a
  stream, the choice and classification of outcomes, and the ownership of the leader.
\<close>

section \<open>Commands and policies\<close>

definition sample_command :: "ready command" where
  "sample_command = command_env (echo one_second capture_policy_default) ''LANG'' ''C''"

lemma sample_prepared: "\<exists>pc. prepare linux [] sample_command = Ok pc"
proof -
  have "names_a_path sample_command"
    by (simp add: names_a_path_def sample_command_def command_env_def echo_def capture_stdout_def
        into_state_def command_new_def is_absolute_def)
  then show ?thesis
    by (simp add: prepare_Ok validate_path_policy_def backend_supported_def linux_def)
qed

text \<open>
  C30. A prepared command starts its child with exactly the environment the policy and the
  builder's calls describe: nothing by default, the allowed keys that are set, or everything,
  and then each explicit setting and removal in call order.
\<close>

theorem child_environment:
  assumes "prepare t parent c = Ok pc"
  shows "map_of (child_env parent (sc_env (pc_command pc))) = intended_env parent c"
  using assms by (rule prepared_child_env)

theorem child_environment_witness:
  "\<exists>pc. prepare linux [] sample_command = Ok pc \<and>
     map_of (child_env [] (sc_env (pc_command pc))) = [''LANG'' \<mapsto> ''C'']"
proof -
  obtain pc where pc: "prepare linux [] sample_command = Ok pc"
    using sample_prepared by blast
  have "intended_env [] sample_command = [''LANG'' \<mapsto> ''C'']"
    by (simp add: intended_env_def sample_command_def command_env_def echo_def capture_stdout_def
        into_state_def command_new_def env_policy_default_def base_env_def)
  with child_environment [OF pc] pc show ?thesis by auto
qed

text \<open>
  C31. A bare program name is accepted exactly when the child's own environment will have a
  \<open>PATH\<close>: what the validation computes from the policy and the recorded calls is what the
  prepared environment contains.
\<close>

theorem path_validation:
  "validate_path_policy parent c = Ok () \<longleftrightarrow>
     names_a_path c \<or> intended_env parent c path_key \<noteq> None"
  by (simp add: validate_path_policy_def path_available_iff)

theorem path_validation_witness:
  "validate_path_policy [] (command_env (command_new ''ls'') ''PATH'' ''/bin'') = Ok ()"
  by (simp add: path_validation intended_env_def command_env_def path_key_def)

text \<open>
  C32. A program accepted without a \<open>PATH\<close> names its file: its bytes contain a separator, so
  starting it never searches a path.
\<close>

theorem pathless_program_has_separator:
  assumes "prepare t parent c = Ok pc" and "intended_env parent c path_key = None"
  shows "CHR ''/'' \<in> set (sc_program (pc_command pc))"
proof -
  have "names_a_path c" and prog: "sc_program (pc_command pc) = c_program c"
    using assms path_validation [of parent c] by (auto simp: prepare_Ok)
  then show ?thesis
    unfolding prog names_a_path_def by (intro components_separator) simp
qed

theorem pathless_program_has_separator_witness:
  "\<exists>pc. prepare linux [] sample_command = Ok pc \<and> CHR ''/'' \<in> set (sc_program (pc_command pc))"
proof -
  obtain pc where pc: "prepare linux [] sample_command = Ok pc"
    using sample_prepared by blast
  have "intended_env [] sample_command path_key = None"
    by (simp add: intended_env_def sample_command_def command_env_def echo_def capture_stdout_def
        into_state_def command_new_def env_policy_default_def base_env_def path_key_def)
  with pathless_program_has_separator [OF pc] pc show ?thesis by blast
qed

text \<open>
  C33. The effective view of the explicit variables is a map in key order that decides the
  child's environment wherever it has an entry; elsewhere the policy does.
\<close>

theorem effective_environment:
  "sorted_wrt (<) (map fst (get_envs c)) \<and>
   intended_env parent c k =
     (case map_of (get_envs c) k of
        Some entry \<Rightarrow> entry
      | None \<Rightarrow> base_env parent (c_environment c) k)"
  using get_envs_wf [of c] by (simp add: bt_wf_def intended_env_get_envs)

text \<open>
  C34. The typestates are sound: every command that can be built to run is well formed. Its
  reasons are not blank, its allowlist is an ordered set, its deadline is not the maximal
  duration and ends within the clock's range; and if it becomes a streaming command it is the
  same command, with both capture policies untouched.
\<close>

theorem builder_types:
  assumes "ready_built limit c"
  shows "command_wf (ready_wf limit) c \<and>
    (\<forall>sc. streaming c = Ok sc \<longrightarrow> sc = StreamingCommand c \<and>
       c_stdout_capture c = capture_policy_default \<and> c_stderr_capture c = capture_policy_default)"
  using ready_built_wf [OF assms] by (auto simp: streaming_def is_default_iff split: if_splits)

theorem builder_types_witness:
  "\<exists>c. ready_built 100 c \<and> c_environment c = Allowlist (bset_collect [''TERM'', ''HOME'']) \<and>
     command_wf (ready_wf 100) c"
proof -
  let ?d = "allow_environment (command_new ''ls'') [''TERM'', ''HOME'']"
  have "draft_built ?d" by (rule draft_edited [OF draft_new edit_allow])
  moreover have "command_deadline 100 20 ?d 30 = Ok (into_state ?d (ready_new (Deadline 30)))"
    by (simp add: command_deadline_def validate_deadline_def checked_add_def duration_max_def nanos_per_sec_def)
  ultimately have "ready_built 100 (into_state ?d (ready_new (Deadline 30)))"
    by (rule ready_deadline)
  from builder_types [OF this] this show ?thesis
    by (intro exI [of _ "into_state ?d (ready_new (Deadline 30))"])
      (simp add: into_state_def allow_environment_def command_environment_def allowlist_def)
qed

text \<open>
  C35. Debug output does not depend on environment values: two streaming commands that differ
  in nothing but values that were set render alike.
\<close>

theorem debug_redacts_values:
  assumes "list_all2 same_key ops ops'"
  shows "debug_streaming (StreamingCommand (c\<lparr>c_env_ops := ops\<rparr>)) =
    debug_streaming (StreamingCommand (c\<lparr>c_env_ops := ops'\<rparr>))"
  using debug_env_ops_same_key [OF assms] by (simp add: debug_command_def)

theorem debug_redacts_values_witness:
  "debug_streaming (StreamingCommand (sample_command\<lparr>c_env_ops := [EnvSet ''TOKEN'' ''one'']\<rparr>)) =
   debug_streaming (StreamingCommand (sample_command\<lparr>c_env_ops := [EnvSet ''TOKEN'' ''two'']\<rparr>))"
  by (rule debug_redacts_values) simp

text \<open>
  A command becomes a streaming command exactly when both capture policies are the
  defaults, unchanged, and otherwise the error names the first stream that is configured.
\<close>

theorem streaming_needs_defaults:
  "streaming c =
     (if c_stdout_capture c \<noteq> capture_policy_default
      then Err (InvalidPolicy (CapturePolicyWithStreaming Stdout))
      else if c_stderr_capture c \<noteq> capture_policy_default
      then Err (InvalidPolicy (CapturePolicyWithStreaming Stderr))
      else Ok (StreamingCommand c))"
  by (simp add: streaming_def is_default_iff)

text \<open>
  Lifetimes are validated when they are chosen: a deadline is accepted exactly when it
  is not the maximal duration and the clock can represent its end, an unbounded lifetime
  exactly when its reason is not blank, and the builder's settings are kept in both cases.
\<close>

theorem lifetime_validated:
  "command_deadline limit now c d =
     (if d = duration_max \<or> limit \<le> now + d then Err (InvalidPolicy (DeadlineOverflow d))
      else Ok (into_state c (ready_new (Deadline d)))) \<and>
   command_unbounded c reason =
     (if \<forall>x \<in> set reason. is_whitespace x then Err (InvalidPolicy EmptyReason)
      else Ok (into_state c (ready_new (Unbounded (NonEmptyReason reason)))))"
  by (simp add: command_deadline_def command_unbounded_def validate_deadline_def checked_add_None
      reason_new_def trim_Nil_iff)

theorem lifetime_validated_witness:
  "command_unbounded (command_new ''ls'') [32, 9] = Err (InvalidPolicy EmptyReason)"
  using lifetime_validated [of 0 0 "command_new ''ls''" 0 "[32, 9]"] by (simp add: is_whitespace_def)

section \<open>Capture\<close>

text \<open>
  C36. A turn of reading keeps the account of a stream: what is stored is what the policy keeps
  of the bytes the pipe has delivered, the rest is counted as discarded, an exceeded
  fail-closed bound is noted, and the pipe is given up exactly at end of file or on a failure.
\<close>

theorem capture_turn:
  assumes "captures policy p s h" and "pump E budget s h = (s', h')"
  shows "captures policy p s' h'"
  using pump_captures [OF assms(1), of E budget] assms(2) by simp

theorem capture_turn_witness:
  "captures (bounded 1) ChildStdout
     (fst (pump (machine 0 0 [104, 105] False) 8 (stream_new Stdout (Some ChildStdout) (bounded 1)) []))
     (snd (pump (machine 0 0 [104, 105] False) 8 (stream_new Stdout (Some ChildStdout) (bounded 1)) []))"
  by (rule capture_turn [of _ _ "stream_new Stdout (Some ChildStdout) (bounded 1)" "[]"])
    (simp_all add: captures_new)

text \<open>
  C37. A turn is bounded: it makes at most its budget of reads and takes at most that many
  chunks of 8 KiB off the pipe, so no stream can starve the other or the clock.
\<close>

theorem capture_turn_bounded:
  assumes "captures policy p s h" and "pump E chunks_per_stream_turn s h = (s', h')"
  shows "read_count p h' \<le> read_count p h + 8 \<and>
    length (bytes_read p h') \<le> length (bytes_read p h) + 65536"
  using pump_budget [OF assms(1), of E chunks_per_stream_turn] assms(2)
  by (simp add: chunks_per_stream_turn_def read_chunk_def)

theorem capture_turn_bounded_witness:
  "read_count ChildStdout (snd (pump (machine 0 0 [104, 105] False) chunks_per_stream_turn
     (stream_new Stdout (Some ChildStdout) (bounded 1)) [])) \<le> 8"
proof -
  have "captures (bounded 1) ChildStdout (stream_new Stdout (Some ChildStdout) (bounded 1)) []"
    by (simp add: captures_new)
  moreover obtain s' h' where "pump (machine 0 0 [104, 105] False) chunks_per_stream_turn
      (stream_new Stdout (Some ChildStdout) (bounded 1)) [] = (s', h')"
    by fastforce
  ultimately show ?thesis using capture_turn_bounded by fastforce
qed

text \<open>
  A report tells the truth about its stream at any moment: its bytes are a prefix of what
  was delivered and of what the policy keeps; \<open>Complete\<close> means every byte and end of file,
  \<open>Truncated\<close> the exact kept prefix and count, \<open>Incomplete\<close> that end of file was not seen.
\<close>

theorem report_tells_truth:
  assumes "captures policy p s h"
  shows "report_truthful policy p (into_report s) h \<and>
    (completeness (captured (into_report s)) = Complete \<longrightarrow> cs_bytes (captured (into_report s)) = bytes_read p h)"
  using into_report_truthful [OF assms] by (auto simp: report_truthful_def)

theorem report_tells_truth_witness:
  "report_truthful (Policy.truncate 5) ChildStderr (into_report (stream_new Stderr (Some ChildStderr) (Policy.truncate 5))) []"
  by (rule report_tells_truth [THEN conjunct1]) (simp add: captures_new)

text \<open>
  Retaining a chunk accounts for all of it: every byte is stored or counted as discarded,
  with saturation, under every policy and also when memory cannot be reserved.
\<close>

theorem retain_accounts_for_chunk:
  assumes "accounts policy s bs" and "cap_failure s = None" and "length chunk < 2 ^ 64"
    and "retain E chunk s h = (s', h')"
  shows "accounts policy s' (bs @ chunk)"
  using retain_accounts [OF assms(1-3), of E h] assms(4) by simp

theorem retain_accounts_for_chunk_witness:
  "accounts (bounded 1) (fst (retain (machine 0 0 [] False) [104, 105]
     (stream_new Stdout (Some ChildStdout) (bounded 1)) [])) [104, 105]"
proof -
  have "accounts (bounded 1) (stream_new Stdout (Some ChildStdout) (bounded 1)) []"
    using captures_new [of ChildStdout "[]" "Some ChildStdout" "bounded 1" Stdout]
    by (simp add: captures_def)
  moreover have "cap_failure (stream_new Stdout (Some ChildStdout) (bounded 1)) = None"
    by (simp add: stream_new_def)
  moreover obtain s' h' where "retain (machine 0 0 [] False) [104, 105]
      (stream_new Stdout (Some ChildStdout) (bounded 1)) [] = (s', h')"
    by fastforce
  ultimately show ?thesis using retain_accounts_for_chunk [of "bounded 1" _ "[]" "[104, 105]"] by simp
qed

section \<open>Outcomes\<close>

text \<open>
  The primary outcome is the most significant thing observed, in the documented order:
  a standard output limit, a standard error limit, cancellation, the deadline, an observation
  failure, and only then the exit.
\<close>

theorem primary_is_most_significant:
  "fst (choose_primary obs a b) \<in> set (observed_outcomes obs a b False) \<and>
   (\<forall>q \<in> set (observed_outcomes obs a b False).
      primary_rank (fst (choose_primary obs a b)) \<le> primary_rank q)"
  using choose_primary_observed choose_primary_least by blast

theorem primary_is_most_significant_witness:
  "primary_rank (fst (choose_primary (observations_default\<lparr>cancelled := True\<rparr>) None (Some 7))) \<le> 1"
  using primary_is_most_significant [of "observations_default\<lparr>cancelled := True\<rparr>" None "Some 7"]
  by (simp add: observed_outcomes_def)

text \<open>How each outcome is reported when it is the one that counts.\<close>

definition reported_as ::
  "label \<Rightarrow> duration option \<Rightarrow> lifecycle_evidence \<Rightarrow> primary \<Rightarrow> epi_error + run_output" where
  "reported_as program deadline ev p =
     (case p of
        PrimaryLimit stream limit \<Rightarrow> Err (CaptureLimitExceeded program stream limit ev)
      | PrimaryCancelled \<Rightarrow> Err (Cancelled program ev)
      | PrimaryDeadline \<Rightarrow> Err (Timeout program (the deadline) ev)
      | PrimaryCaptureFailure \<Rightarrow> Err (CaptureFailed program ev)
      | PrimarySupervision source \<Rightarrow> Err (SupervisionFailed program source ev)
      | PrimaryExit \<Rightarrow> map_sum id (\<lambda>(status, ev). output_new status ev) (classify_exit program ev))"

text \<open>
  C38. What is reported is the most significant fact, in the documented order: a standard
  output limit, a standard error limit, cancellation, the deadline, a capture failure, a
  supervision failure, and only then the exit. Choosing the primary outcome and classifying it
  together report the head of the list of everything observed, which is in that order.
\<close>

theorem outcome_precedence:
  assumes "deadline_elapsed obs \<Longrightarrow> deadline \<noteq> None"
  shows "classify (fst (choose_primary obs a b)) program deadline ev =
      reported_as program deadline ev
        (hd (observed_outcomes obs a b (first_capture_failure ev \<noteq> None))) \<and>
    sorted (map primary_rank (observed_outcomes obs a b (first_capture_failure ev \<noteq> None)))"
proof
  show "sorted (map primary_rank (observed_outcomes obs a b (first_capture_failure ev \<noteq> None)))"
    by (auto simp: observed_outcomes_def split: option.split)
  show "classify (fst (choose_primary obs a b)) program deadline ev =
      reported_as program deadline ev
        (hd (observed_outcomes obs a b (first_capture_failure ev \<noteq> None)))"
  proof (cases "first_capture_failure ev = None")
    case True
    with assms show ?thesis
      by (auto simp: first_capture_failure_None classify_def reported_as_def choose_primary_def
          observed_outcomes_def split: option.split)
  next
    case False
    with assms show ?thesis
      by (auto simp: first_capture_failure_def classify_def capture_overrides_def reported_as_def
          choose_primary_def observed_outcomes_def Let_def split: option.split if_splits)
  qed
qed

theorem outcome_precedence_witness:
  "classify (fst (choose_primary (observations_default\<lparr>cancelled := True, deadline_elapsed := True\<rparr>) None (Some 7)))
     (LabelText ''x'') (Some 1) unknown_evidence
   = Err (CaptureLimitExceeded (LabelText ''x'') Stderr 7 unknown_evidence)"
  using outcome_precedence [of "observations_default\<lparr>cancelled := True, deadline_elapsed := True\<rparr>" "Some 1"
      None "Some 7" "LabelText ''x''" unknown_evidence]
  by (simp add: observed_outcomes_def reported_as_def)

text \<open>
  Classification never drops evidence, and a result is \<open>Ok\<close> exactly for an exit with no
  capture failure, complete cleanup, a delivered signal, a clean reap and a zero status.
\<close>

theorem classification:
  "run_evidence (classify p program d ev) = Some ev \<and>
   (classify p program d ev = Ok out \<longleftrightarrow>
      p = PrimaryExit \<and> first_capture_failure ev = None \<and> settled_exit ev \<and>
      (\<exists>st. leader_status ev = Some st \<and> success st \<and> out = output_new st ev))"
  by (simp add: classify_evidence classify_Ok)

section \<open>Waiting and ownership\<close>

text \<open>
  No wait of a supervisor is longer than 10 ms, nor reaches past the deadline or the end
  of the cleanup budget; the nanoseconds handed to the kernel are the whole of it.
\<close>

theorem waits_are_short:
  "fst (wait_quantum E deadline cleanup_at h) \<le> from_millis 10 \<and>
   subsec_nanos (fst (wait_quantum E deadline cleanup_at h)) = fst (wait_quantum E deadline cleanup_at h) \<and>
   (\<forall>v. deadline = Some v \<or> cleanup_at = Some v \<longrightarrow>
      on_now E h + fst (wait_quantum E deadline cleanup_at h) \<le> max v (on_now E h))"
proof -
  let ?w = "fst (wait_quantum E deadline cleanup_at h)"
  have "?w \<le> event_quantum"
    by (auto simp: wait_quantum_def sys_now_def Let_def split: option.split)
  moreover have "event_quantum < nanos_per_sec"
    by (simp add: event_quantum_def from_millis_def nanos_per_sec_def)
  ultimately have "?w \<le> from_millis 10" "subsec_nanos ?w = ?w"
    by (simp_all add: event_quantum_def subsec_nanos_def)
  moreover have "on_now E h + ?w \<le> max v (on_now E h)" if "deadline = Some v \<or> cleanup_at = Some v" for v
    using that
    by (auto simp: wait_quantum_def sys_now_def saturating_duration_since_def Let_def split: option.split)
  ultimately show ?thesis by blast
qed

theorem waits_are_short_witness:
  "on_now (machine 0 0 [] False) [] + fst (wait_quantum (machine 0 0 [] False) (Some 5) None []) \<le> 5"
  using waits_are_short [of "machine 0 0 [] False" "Some 5" None "[]"] by (simp add: machine_def)

text \<open>
  C39. Giving up a leader is all or nothing: a transfer to the background reaper that is
  accepted ends ownership and is the reported disposition, one that is refused keeps the
  ownership and is recorded as a failure; either way the drop that follows makes an accepted
  history.
\<close>

theorem relinquishing:
  assumes "has_child o'" and "oc_reaper o' \<noteq> None" and "owns o' seen True h"
    and "relinquish E Unreaped o' obs h = (d, o'', obs', h')"
  shows "(d = BackgroundReaper \<longleftrightarrow> EvHandOff (oc_pgid o') True \<in> set (drop (length h) h')) \<and>
    (d = BackgroundReaper \<longleftrightarrow> \<not> has_child o'') \<and>
    (d \<noteq> BackgroundReaper \<longrightarrow> d = Unreaped \<and> reap_failures obs' \<noteq> []) \<and>
    lifecycle_ok (snd (drop_owned E o'' h'))"
proof -
  note R = relinquish_held [OF assms]
  have "lifecycle_ok (snd (drop_owned E o'' h'))"
    using R(2) by (rule drop_owned_accepted)
  with R(1,3) show ?thesis by (auto split: if_splits)
qed

theorem relinquishing_witness:
  "lifecycle_ok (snd (case relinquish (machine 0 0 [] False) Unreaped
       \<lparr>oc_child = Some \<lparr>child_id = 42, child_stdin = None, child_stdout = None, child_stderr = None\<rparr>,
        oc_pgid = 42, oc_reaper = Some ReaperSender\<rparr>
       observations_default [EvSpawn (Ok 42), EvKill 42 (Ok ())] of
     (d, o', obs, h) \<Rightarrow> drop_owned (machine 0 0 [] False) o' h))"
proof -
  let ?o = "\<lparr>oc_child = Some \<lparr>child_id = 42, child_stdin = None, child_stdout = None, child_stderr = None\<rparr>,
        oc_pgid = 42, oc_reaper = Some ReaperSender\<rparr>"
  let ?h = "[EvSpawn (Ok 42), EvKill 42 (Ok ())] :: history"
  obtain d o'' obs' h' where r: "relinquish (machine 0 0 [] False) Unreaped ?o observations_default ?h
      = (d, o'', obs', h')"
    by (cases "relinquish (machine 0 0 [] False) Unreaped ?o observations_default ?h") auto
  have "owns ?o False True ?h"
    by (simp add: owns_def phase_of_def)
  with relinquishing [OF _ _ _ r, of False] r show ?thesis
    by (simp add: has_child_def)
qed

section \<open>Messages\<close>

text \<open>Every error is determined by its message and its evidence, up to the category of a cause.\<close>

theorem messages_determine_errors:
  "display_error a = display_error b \<and> error_evidence a = error_evidence b \<longleftrightarrow> same_error a b"
  by (rule display_error_determines)

end
