(* ===== verification/Interruptions.thy ===== *)
theory Interruptions
  imports Managed_Executions
begin

text \<open>
  Two facts about what interrupts a captured execution: a token that is never set never makes
  an outcome, and an observation failure ends every attempt to reap.
\<close>

section \<open>A token nobody sets\<close>

definition never_cancelled :: "os_env \<Rightarrow> bool" where
  "never_cancelled E \<longleftrightarrow> (\<forall>h. \<not> on_cancelled E h)"

abbreviation uncancelled :: "'a supervised_scheme \<Rightarrow> bool" where
  "uncancelled s \<equiv> \<not> cancelled (ex_obs s)"

lemma uncancelled_steps:
  assumes "never_cancelled E"
  shows "cancelled (ex_obs (observe E s)) \<longleftrightarrow> cancelled (ex_obs s)"
    "cancelled (ex_obs (check_cancelled E s)) \<longleftrightarrow> cancelled (ex_obs s)"
    "cancelled (ex_obs (check_deadline E dl s)) \<longleftrightarrow> cancelled (ex_obs s)"
  using assms
  by (auto simp: observe_def check_cancelled_eq check_deadline_def never_cancelled_def
      observe_leader_frame split: prod.split)

lemma serve_streams_uncancelled: "cancelled (ex_obs (serve_streams E wait s)) \<longleftrightarrow> cancelled (ex_obs s)"
  by (simp add: serve_streams_def split: prod.split sum.split)

lemma reap_leader_uncancelled: "cancelled (ex_obs (snd (reap_leader E s))) \<longleftrightarrow> cancelled (ex_obs s)"
  by (simp add: reap_leader_def reap_step_def split: prod.split sum.split)

interpretation uncancelled_supervision: loop_contract "supervise_turn E dl"
    "\<lambda>s. never_cancelled E \<and> uncancelled s" "\<lambda>s. uncancelled s"
  for E dl
proof (unfold_locales, goal_cases)
  case (1 s s')
  then show ?case
    by (auto elim!: supervise_turn_Continue simp: serve_streams_uncancelled observed_def uncancelled_steps)
next
  case (2 s r)
  then show ?case
    by (simp add: supervise_turn_Break observed_def uncancelled_steps)
qed

interpretation uncancelled_cleaning: loop_contract "cleanup_turn E dl cl"
    "\<lambda>s. never_cancelled E \<and> uncancelled s" "\<lambda>s. uncancelled s"
  for E dl cl
proof (unfold_locales, goal_cases)
  case (1 s s')
  from 1(2) obtain wait t where t: "reap_leader E (cleanup_observed E dl s) = (True, t)"
    and s': "s' = serve_streams E wait (t\<lparr>ex_hist := ex_hist t @ [EvNow (on_now E (ex_hist t))]\<rparr>)"
    by (rule cleanup_turn_Continue)
  have "uncancelled t"
    using reap_leader_uncancelled [of E "cleanup_observed E dl s"] t 1(1)
    by (simp add: cleanup_observed_def uncancelled_steps)
  with 1(1) show ?case by (simp add: s' serve_streams_uncancelled)
next
  case (2 s r)
  show ?case
  proof (cases "on_now E (ex_hist s) < cl")
    case False
    with 2 show ?thesis by (auto simp: cleanup_turn_cases)
  next
    case True
    obtain ok t where t: "reap_leader E (cleanup_observed E dl s) = (ok, t)" by fastforce
    with True 2(2) have "r = t" by (auto simp: cleanup_turn_cases split: if_splits prod.splits)
    with reap_leader_uncancelled [of E "cleanup_observed E dl s"] t 2(1) show ?thesis
      by (simp add: cleanup_observed_def uncancelled_steps)
  qed
qed

lemma relinquish_uncancelled:
  "relinquish E d o' obs h = (d', o'', obs', h') \<Longrightarrow> cancelled obs' = cancelled obs"
  by (auto simp: relinquish_def split: if_splits sum.splits prod.splits)

lemma execute_never_cancelled:
  assumes "never_cancelled E" and "execute E t parent c = Some (r, h)"
  shows "r \<noteq> Err (Cancelled program ev)"
proof (cases "prepare t parent c")
  case (Inl e)
  with assms(2) prepare_Err [OF Inl] show ?thesis by (auto simp: execute_def)
next
  case (Inr pc)
  then have "backend_supported t" by (simp add: prepare_Ok)
  with Inr assms(2) have run: "execute_unix E pc [] = Some (r, h)" by (simp add: execute_def)
  from run show ?thesis
  proof (cases rule: execute_unix_steps)
    case (refused e)
    with begin_exec_Err(1) show ?thesis by fastforce
  next
    case (ran started dl s h0 s1 cl outcome s2 s3)
    have "uncancelled s"
      using ran(1) by (auto simp: begin_exec_def Let_def observations_default_def
          split: sum.splits prod.splits)
    then have "uncancelled s1"
      using uncancelled_supervision.result [OF ran(2)] assms(1) by simp
    then have "uncancelled s2"
      using ran(3) by (auto simp: signal_exec_def split: prod.splits)
    then have "uncancelled s3"
      using uncancelled_cleaning.result [OF ran(4)] assms(1) by simp
    moreover obtain d o' obs h1 where rel:
      "relinquish E (ex_reap s3) (ex_owned s3) (ex_obs s3) (ex_hist s3) = (d, o', obs, h1)"
      by (cases "relinquish E (ex_reap s3) (ex_owned s3) (ex_obs s3) (ex_hist s3)") auto
    ultimately have "\<not> cancelled obs"
      using relinquish_uncancelled [OF rel] by simp
    then show ?thesis
      using ran(5) conclude_exec_eq [OF rel, of pc started outcome]
      by (auto dest!: classify_Cancelled simp: choose_primary_Cancelled)
  qed
qed

section \<open>An observation failure forfeits the reap\<close>

definition blinded :: "exec_state \<Rightarrow> bool" where
  "blinded s \<longleftrightarrow>
     observe_error (ex_obs s) \<noteq> None \<and> \<not> leader_waitable (ex_obs s) \<and> has_child (ex_owned s)"

lemma blinded_observe: "blinded s \<Longrightarrow> observe E s = s"
  by (auto simp: blinded_def observe_def observe_leader_def)

lemma blinded_steps:
  "blinded (check_cancelled E s) \<longleftrightarrow> blinded s" "blinded (check_deadline E dl s) \<longleftrightarrow> blinded s"
  "blinded (s\<lparr>ex_hist := h\<rparr>) \<longleftrightarrow> blinded s"
  by (simp_all add: blinded_def check_cancelled_eq check_deadline_def split: prod.split)

lemma blinded_serve_streams: "blinded s \<Longrightarrow> blinded (serve_streams E wait s)"
  by (auto simp: blinded_def serve_streams_def split: prod.split sum.split)

lemma blinded_observed: "blinded s \<Longrightarrow> blinded (cleanup_observed E dl s)"
  by (simp add: cleanup_observed_def blinded_observe blinded_steps)

lemma blinded_reap: "blinded s \<Longrightarrow> reap_leader E s = (True, s) \<and> \<not> exec_settled s"
  by (simp add: blinded_def reap_leader_def exec_settled_def)

text \<open>Once blinded, a cleanup loop leaves only because its budget is used up.\<close>

interpretation blinded_cleaning: loop_contract "cleanup_turn E dl cl" blinded
    "\<lambda>s. blinded s \<and> (\<exists>t. EvNow t \<in> set (ex_hist s) \<and> cl \<le> t)"
  for E dl cl
proof (unfold_locales, goal_cases)
  case (1 s s')
  from 1(2) obtain wait t where "reap_leader E (cleanup_observed E dl s) = (True, t)"
    and "s' = serve_streams E wait (t\<lparr>ex_hist := ex_hist t @ [EvNow (on_now E (ex_hist t))]\<rparr>)"
    by (rule cleanup_turn_Continue)
  moreover from this blinded_reap [OF blinded_observed [OF 1(1)]] blinded_observed [OF 1(1), of E dl]
  have "blinded t" by simp
  ultimately show ?case
    by (simp add: blinded_serve_streams blinded_steps)
next
  case (2 s r)
  show ?case
  proof (cases "on_now E (ex_hist s) < cl")
    case False
    with 2(2) have "r = s\<lparr>ex_hist := ex_hist s @ [EvNow (on_now E (ex_hist s))]\<rparr>"
      by (simp add: cleanup_turn_cases)
    with 2(1) False show ?thesis by (auto simp: blinded_steps)
  next
    case True
    with 2(2) blinded_reap [OF blinded_observed [OF 2(1)]] show ?thesis
      by (simp add: cleanup_turn_cases split: prod.splits)
  qed
qed

end
