(* ===== verification/Failed_Reaps.thy ===== *)
theory Failed_Reaps
  imports Interruptions
begin

text \<open>
  What a failed reap does to a captured execution. No call but the reap of a cleanup turn waits
  for the leader, and when that wait fails the loop is left on the spot, with the leader still
  owned; the leader is then offered to the background reaper and the result is concluded.
\<close>

section \<open>Calls that do not wait for the leader\<close>

fun failed_wait :: "event \<Rightarrow> bool" where
  "failed_wait (EvWait _ (Err _)) \<longleftrightarrow> True"
| "failed_wait _ \<longleftrightarrow> False"

abbreviation quiet :: "history \<Rightarrow> history \<Rightarrow> bool" where
  "quiet \<equiv> extends (\<lambda>e. \<not> failed_wait e)"

lemma failed_wait_touches: "failed_wait e \<Longrightarrow> touches_leader e"
  by (cases e rule: failed_wait.cases) simp_all

lemma untouched_quiet: "extends (\<lambda>e. \<not> touches_leader e) h h' \<Longrightarrow> quiet h h'"
  by (erule extends_mono) (auto dest: failed_wait_touches)

text \<open>No reap has failed so far.\<close>

definition unfailed :: "history \<Rightarrow> bool" where
  "unfailed h \<longleftrightarrow> list_all (\<lambda>e. \<not> failed_wait e) h"

lemma unfailed_simps [simp]:
  "unfailed []" "unfailed (h @ h') \<longleftrightarrow> unfailed h \<and> unfailed h'"
  "unfailed (e # h) \<longleftrightarrow> \<not> failed_wait e \<and> unfailed h"
  by (simp_all add: unfailed_def)

lemma quiet_unfailed: "quiet h h' \<Longrightarrow> unfailed h' \<longleftrightarrow> unfailed h"
  by (auto simp: extends_def unfailed_def)

lemma serve_streams_unfailed: "unfailed (ex_hist (serve_streams E wait s)) \<longleftrightarrow> unfailed (ex_hist s)"
  by (rule quiet_unfailed [OF untouched_quiet [OF serve_streams_untouching]])

lemma observe_unfailed: "unfailed (ex_hist (observe E s)) \<longleftrightarrow> unfailed (ex_hist s)"
proof (rule quiet_unfailed [OF extends_mono [OF observe_history]])
  show "\<not> failed_wait e" if "is_waitid e" for e
    using that by (cases e) simp_all
qed

lemma check_deadline_unfailed: "unfailed (ex_hist (check_deadline E dl s)) \<longleftrightarrow> unfailed (ex_hist s)"
  by (rule quiet_unfailed [OF extends_mono [OF check_deadline_history]])
    (auto simp: neutral_def dest: failed_wait_touches)

lemma observed_unfailed: "unfailed (ex_hist (observed E dl s)) \<longleftrightarrow> unfailed (ex_hist s)"
  by (simp add: observed_def check_deadline_unfailed check_cancelled_hist observe_unfailed)

lemma cleanup_observed_unfailed: "unfailed (ex_hist (cleanup_observed E dl s)) \<longleftrightarrow> unfailed (ex_hist s)"
  by (simp add: cleanup_observed_def observe_unfailed check_deadline_unfailed check_cancelled_hist)

section \<open>The loops\<close>

interpretation unfailed_supervision: loop_contract "supervise_turn E dl"
    "\<lambda>s. unfailed (ex_hist s)" "\<lambda>s. unfailed (ex_hist s)"
  for E dl
proof (unfold_locales, goal_cases)
  case (1 s s')
  then show ?case
    by (auto elim!: supervise_turn_Continue simp: serve_streams_unfailed observed_unfailed)
next
  case (2 s r)
  then show ?case by (simp add: supervise_turn_Break observed_unfailed)
qed

text \<open>After cleanup either no reap has failed, or one just did, and the leader is still owned.\<close>

definition reap_cut :: "exec_state \<Rightarrow> bool" where
  "reap_cut s \<longleftrightarrow>
     unfailed (ex_hist s) \<or>
     has_child (ex_owned s) \<and>
     (\<exists>h pid e. unfailed h \<and> ex_hist s = h @ [EvWait pid (Err e)])"

lemma reap_leader_cut:
  assumes "unfailed (ex_hist s)" and "reap_leader E s = (ok, t)"
  shows "if ok then unfailed (ex_hist t) else reap_cut t"
  using assms
  by (auto simp: reap_leader_def reap_step_def reap_waitable_def reap_cut_def has_child_def sys_wait_def
      Let_def split: if_splits sum.splits prod.splits option.splits)

interpretation cut_cleaning: loop_contract "cleanup_turn E dl cl"
    "\<lambda>s. unfailed (ex_hist s)" reap_cut
  for E dl cl
proof (unfold_locales, goal_cases)
  case (1 s s')
  from 1(2) obtain wait t where t: "reap_leader E (cleanup_observed E dl s) = (True, t)"
    and s': "s' = serve_streams E wait (t\<lparr>ex_hist := ex_hist t @ [EvNow (on_now E (ex_hist t))]\<rparr>)"
    by (rule cleanup_turn_Continue)
  have "unfailed (ex_hist t)"
    using reap_leader_cut [OF _ t] 1(1) by (simp add: cleanup_observed_unfailed)
  then show ?case by (simp add: s' serve_streams_unfailed)
next
  case (2 s r)
  show ?case
  proof (cases "on_now E (ex_hist s) < cl")
    case False
    with 2 show ?thesis by (auto simp: cleanup_turn_cases reap_cut_def)
  next
    case True
    obtain ok t where t: "reap_leader E (cleanup_observed E dl s) = (ok, t)" by fastforce
    with True 2(2) have "r = t" by (auto simp: cleanup_turn_cases split: if_splits prod.splits)
    with reap_leader_cut [OF _ t] 2(1) show ?thesis
      by (auto simp: cleanup_observed_unfailed reap_cut_def split: if_splits)
  qed
qed

section \<open>The conclusion\<close>

lemma flag_calls_unfailed: "extends is_flag_call h h' \<Longrightarrow> unfailed h' \<longleftrightarrow> unfailed h"
  by (rule quiet_unfailed, erule extends_mono) (auto elim: is_flag_call.elims)

lemma make_nonblocking_unfailed: "unfailed (snd (make_nonblocking E s h)) \<longleftrightarrow> unfailed h"
  by (rule flag_calls_unfailed [OF make_nonblocking_history])

lemma begin_exec_unfailed:
  assumes "begin_exec E pc [] = (b, h)"
  shows "unfailed h" "b = Ok (started, dl, s) \<Longrightarrow> ex_hist s = h"
proof -
  have nb: "make_nonblocking E t h0 = (t', h1) \<Longrightarrow> unfailed h0 \<Longrightarrow> unfailed h1" for t h0 t' h1
    using make_nonblocking_unfailed [of E t h0] by simp
  show "unfailed h"
    using assms
    by (auto simp: begin_exec_def start_background_reaper_def io_defs Let_def
        split: sum.splits prod.splits dest!: nb)
  show "ex_hist s = h" if "b = Ok (started, dl, s)"
    using assms that
    by (auto simp: begin_exec_def Let_def split: sum.splits prod.splits)
qed

lemma wait_names_leader:
  assumes "leader_ok pid sig s" and "has_child (ex_owned s)" and "ex_hist s = h @ [EvWait pid' r]"
  shows "pid' = pid"
  using assms
  by (auto simp: leader_ok_def owns_def has_child_def phase_of_append split: option.splits phase.splits sum.splits if_splits)

text \<open>The calls that conclude an execution whose leader is still owned.\<close>

lemma conclude_held:
  assumes "leader_ok pid True s" and "has_child (ex_owned s)"
    and "conclude_exec E pc started outcome s = (r, h)"
  shows "\<exists>now accepted k.
      h = ex_hist s @ EvHandOff pid accepted # EvNow now # (if accepted then [] else [EvKill pid k])"
    "\<exists>ev i. run_evidence r = Some ev \<and> cleanup ev = CleanupIncomplete i \<and> leader_unsettled i"
proof -
  obtain d o' obs h1 where
    rel: "relinquish E (ex_reap s) (ex_owned s) (ex_obs s) (ex_hist s) = (d, o', obs, h1)"
    by (cases "relinquish E (ex_reap s) (ex_owned s) (ex_obs s) (ex_hist s)") auto
  have own: "owns (ex_owned s) (leader_waitable (ex_obs s)) True (ex_hist s)" "oc_pgid (ex_owned s) = pid"
    "oc_reaper (ex_owned s) \<noteq> None"
    using assms(1) by (simp_all add: leader_ok_def)
  note R = relinquish_held [OF assms(2) own(3,1) rel]
  have "has_child o' \<Longrightarrow> oc_reaper o' = None"
    using R(3) by (auto split: if_splits)
  from drop_after_refusal [OF this] R own(2) assms(3) conclude_exec_eq [OF rel, of pc started outcome]
  show "\<exists>now accepted k.
      h = ex_hist s @ EvHandOff pid accepted # EvNow now # (if accepted then [] else [EvKill pid k])"
    by (auto split: if_splits)
  show "\<exists>ev i. run_evidence r = Some ev \<and> cleanup ev = CleanupIncomplete i \<and> leader_unsettled i"
    using assms(2,3) conclude_exec_eq [OF rel, of pc started outcome]
    by (auto simp: classify_evidence exec_evidence_def)
qed

lemma conclude_unfailed:
  assumes "leader_ok pid True s" and "unfailed (ex_hist s)"
    and "conclude_exec E pc started outcome s = (r, h)"
  shows "unfailed h"
proof (cases "has_child (ex_owned s)")
  case True
  from conclude_held(1) [OF assms(1) True assms(3)] assms(2) show ?thesis by auto
next
  case False
  with assms(2,3) conclude_exec_eq [OF relinquish_idle [OF False], of E pc started outcome]
  show ?thesis by (auto simp: drop_owned_def has_child_def)
qed

lemma only_failure:
  assumes "xs @ x # ys = h @ v # vs" and "failed_wait x" "unfailed h" "unfailed vs"
  shows "xs = h \<and> x = v \<and> ys = vs"
  using assms by (auto simp: append_eq_append_conv2 append_eq_Cons_conv Cons_eq_append_conv)

lemma execute_failed_reap:
  assumes "execute E t parent c = Some (r, before @ EvWait pid (Err e) # after)"
  shows "(\<exists>ev i. run_evidence r = Some ev \<and> cleanup ev = CleanupIncomplete i \<and> leader_unsettled i) \<and>
    (\<exists>now accepted k. after = EvHandOff pid accepted # EvNow now # (if accepted then [] else [EvKill pid k]))"
proof (cases "prepare t parent c")
  case (Inl e')
  with assms show ?thesis by (simp add: execute_def)
next
  case (Inr pc)
  let ?h = "before @ EvWait pid (Err e) # after"
  have "backend_supported t" using Inr by (simp add: prepare_Ok)
  with Inr assms have run: "execute_unix E pc [] = Some (r, ?h)" by (simp add: execute_def)
  have bad: "\<not> unfailed ?h" by simp
  from run show ?thesis
  proof (cases rule: execute_unix_steps)
    case (refused e')
    with begin_exec_unfailed(1) bad show ?thesis by blast
  next
    case (ran started dl s h1 s1 cl outcome s2 s3)
    from ran(1) obtain pid' where "supervising (pc_stdout_capture pc) (pc_stderr_capture pc) dl pid' s"
      by (rule begin_exec_Ok)
    then have "supervising (pc_stdout_capture pc) (pc_stderr_capture pc) dl pid' s1"
      using supervision.result [OF ran(2)] by simp
    from signal_exec_cleans(1) [OF this ran(3)] cleaning.result [OF ran(4)]
    have "exec_inv (pc_stdout_capture pc) (pc_stderr_capture pc) dl pid' True s3" by blast
    then have ok: "leader_ok pid' True s3" by (rule exec_invD(2))
    have "unfailed (ex_hist s)"
      using begin_exec_unfailed [OF ran(1)] by simp
    then have "unfailed (ex_hist s1)"
      using unfailed_supervision.result [OF ran(2)] by simp
    then have "unfailed (ex_hist s2)"
      using ran(3) by (auto simp: signal_exec_def cleanup_deadline_def signal_group_of sys_now_def Let_def)
    then have "reap_cut s3"
      by (rule cut_cleaning.result [OF ran(4)])
    with conclude_unfailed [OF ok _ ran(5)] bad obtain h0 pid0 e0 where cut: "has_child (ex_owned s3)"
      "unfailed h0" "ex_hist s3 = h0 @ [EvWait pid0 (Err e0)]"
      by (auto simp: reap_cut_def)
    from conclude_held [OF ok cut(1) ran(5)] obtain now accepted k where
      h: "?h = h0 @ EvWait pid0 (Err e0) # EvHandOff pid' accepted # EvNow now #
            (if accepted then [] else [EvKill pid' k])"
      using cut(3) by auto
    have "pid0 = pid'"
      by (rule wait_names_leader [OF ok cut(1,3)])
    with only_failure [OF h] cut(2) conclude_held(2) [OF ok cut(1) ran(5)] show ?thesis
      by auto
  qed
qed

end
