(* ===== verification/Async_Future.thy ===== *)
theory Async_Future
  imports Adapters Executions
begin

text \<open>
  The future of \<open>async_impl.rs\<close> as a state machine: before its first poll it holds nothing but
  the command; the first poll makes the token and the guard and hands the invocation to a
  blocking worker; then the worker makes its calls while the future is awaited or dropped, in
  any order. The token is shared, so when it is set is told by the number of calls the worker
  had made.
\<close>

section \<open>The parties\<close>

datatype future =
  Unpolled
| Awaiting cancel_on_drop
| Returned "epi_error + run_output"
| Dropped

datatype worker = NotStarted | Working nat | Done worker_outcome history

record async_state =
  as_future :: future
  as_worker :: worker
  as_token :: bool
  as_set_at :: "nat option"

definition async_initial :: async_state where
  "async_initial = \<lparr>as_future = Unpolled, as_worker = NotStarted, as_token = False, as_set_at = None\<rparr>"

text \<open>What the worker reads off the token: unset until it had made the given number of calls.\<close>

definition token_at :: "nat option \<Rightarrow> nat \<Rightarrow> bool" where
  "token_at set_at calls = (case set_at of None \<Rightarrow> False | Some n \<Rightarrow> n \<le> calls)"

definition worker_env :: "nat option \<Rightarrow> os_env \<Rightarrow> os_env" where
  "worker_env set_at E =
     E\<lparr>on_cancelled := \<lambda>h. cancellation_is_cancelled (token_at set_at (length h))\<rparr>"

definition calls_made :: "worker \<Rightarrow> nat" where
  "calls_made w = (case w of NotStarted \<Rightarrow> 0 | Working n \<Rightarrow> n | Done _ h \<Rightarrow> length h)"

text \<open>Writing the token, and remembering when it was first set.\<close>

definition set_token :: "bool \<Rightarrow> async_state \<Rightarrow> async_state" where
  "set_token b s =
     s\<lparr>as_token := b,
       as_set_at := (if b \<and> as_set_at s = None then Some (calls_made (as_worker s)) else as_set_at s)\<rparr>"

text \<open>Dropping the future: an unpolled one has no guard, a finished one has released it.\<close>

definition drop_future :: "async_state \<Rightarrow> async_state" where
  "drop_future s =
     (case as_future s of
        Awaiting g \<Rightarrow> set_token (drop_guard g (as_token s)) (s\<lparr>as_future := Dropped\<rparr>)
      | _ \<Rightarrow> s\<lparr>as_future := Dropped\<rparr>)"

section \<open>Interleavings\<close>

inductive async_step ::
  "os_env \<Rightarrow> target \<Rightarrow> parent_env \<Rightarrow> ready command \<Rightarrow> async_state \<Rightarrow> async_state \<Rightarrow> bool"
  for E t parent c where
  first_poll: "as_future s = Unpolled \<Longrightarrow>
    async_step E t parent c s (s\<lparr>as_future := Awaiting spawn_guard, as_worker := Working 0\<rparr>)"
| worker_call: "as_worker s = Working n \<Longrightarrow>
    async_step E t parent c s (s\<lparr>as_worker := Working (Suc n)\<rparr>)"
| worker_done: "as_worker s = Working n \<Longrightarrow>
    execute (worker_env (as_set_at s) E) t parent c = Some (r, h) \<Longrightarrow> length h = n \<Longrightarrow>
    async_step E t parent c s (s\<lparr>as_worker := Done (Joined r) h\<rparr>)"
| worker_lost: "as_worker s = Working n \<Longrightarrow>
    async_step E t parent c s (s\<lparr>as_worker := Done (JoinFailed message) []\<rparr>)"
| future_resumes: "as_future s = Awaiting g \<Longrightarrow> as_worker s = Done w h \<Longrightarrow>
    spawn_resume w (as_token s) = (r, token) \<Longrightarrow>
    async_step E t parent c s (set_token token (s\<lparr>as_future := Returned r\<rparr>))"
| future_drops: "as_future s \<noteq> Dropped \<Longrightarrow> async_step E t parent c s (drop_future s)"

inductive async_reachable ::
  "os_env \<Rightarrow> target \<Rightarrow> parent_env \<Rightarrow> ready command \<Rightarrow> async_state \<Rightarrow> bool"
  for E t parent c where
  created: "async_reachable E t parent c async_initial"
| stepped: "async_reachable E t parent c s \<Longrightarrow> async_step E t parent c s s' \<Longrightarrow>
    async_reachable E t parent c s'"

inductive_cases async_stepE: "async_step E t parent c s s'"

section \<open>The invariant\<close>

text \<open>
  While the future is awaited its guard is armed and the token unset; the token is set exactly
  when an awaited future was dropped or its worker was lost; a worker exists exactly once the
  future was polled.
\<close>

definition run_result :: "os_env \<Rightarrow> target \<Rightarrow> parent_env \<Rightarrow> ready command \<Rightarrow> nat option \<Rightarrow> worker \<Rightarrow> bool" where
  "run_result E t parent c set_at w \<longleftrightarrow>
     (case w of
        Done (Joined r) h \<Rightarrow>
          (\<exists>at. (at = None \<or> at = set_at) \<and> execute (worker_env at E) t parent c = Some (r, h))
      | _ \<Rightarrow> True)"

definition async_ok :: "os_env \<Rightarrow> target \<Rightarrow> parent_env \<Rightarrow> ready command \<Rightarrow> async_state \<Rightarrow> bool" where
  "async_ok E t parent c s \<longleftrightarrow>
     (as_token s \<longleftrightarrow> as_set_at s \<noteq> None) \<and>
     run_result E t parent c (as_set_at s) (as_worker s) \<and>
     (case as_future s of
        Unpolled \<Rightarrow> as_worker s = NotStarted \<and> \<not> as_token s
      | Awaiting g \<Rightarrow> g = spawn_guard \<and> as_worker s \<noteq> NotStarted \<and> \<not> as_token s
      | Returned r \<Rightarrow>
          (\<exists>w h. as_worker s = Done w h \<and> r = fst (spawn_resume w False) \<and>
             (as_token s \<longleftrightarrow> (\<exists>message. w = JoinFailed message)) \<and>
             (\<forall>r'. w = Joined r' \<longrightarrow> execute (worker_env None E) t parent c = Some (r', h)))
      | Dropped \<Rightarrow>
          (as_worker s = NotStarted \<longrightarrow> \<not> as_token s) \<and>
          (\<not> as_token s \<longrightarrow>
             as_worker s = NotStarted \<or>
             (\<exists>r h. as_worker s = Done (Joined r) h \<and> execute (worker_env None E) t parent c = Some (r, h))))"

lemma spawn_resume_cases:
  "spawn_resume (Joined r) token = (r, token)"
  "spawn_resume (JoinFailed m) token =
     (Err (SupervisionFailed (LabelText ''asynchronous supervisor'') (io_other m) unknown_evidence), True)"
  by (simp_all add: spawn_resume_def)

lemma set_token_simps [simp]:
  "as_future (set_token b s) = as_future s" "as_worker (set_token b s) = as_worker s"
  "as_token (set_token b s) = b"
  "as_set_at (set_token b s) =
     (if b \<and> as_set_at s = None then Some (calls_made (as_worker s)) else as_set_at s)"
  by (simp_all add: set_token_def)

lemma async_ok_initial: "async_ok E t parent c async_initial"
  by (simp add: async_ok_def async_initial_def run_result_def)

lemma async_ok_step:
  assumes "async_ok E t parent c s" and "async_step E t parent c s s'"
  shows "async_ok E t parent c s'"
  using assms(2)
proof cases
  case first_poll
  with assms(1) show ?thesis by (auto simp: async_ok_def run_result_def)
next
  case (worker_call n)
  with assms(1) show ?thesis by (auto simp: async_ok_def run_result_def split: future.splits)
next
  case (worker_done n r h)
  with assms(1) show ?thesis by (auto simp: async_ok_def run_result_def split: future.splits)
next
  case (worker_lost n message)
  with assms(1) show ?thesis by (auto simp: async_ok_def run_result_def split: future.splits)
next
  case (future_resumes g w h r token)
  with assms(1) show ?thesis
    by (cases w) (auto simp: async_ok_def run_result_def spawn_resume_cases)
next
  case future_drops
  with assms(1) show ?thesis
    by (cases "as_future s")
      (auto simp: async_ok_def run_result_def drop_future_def spawn_resume_cases
        split: worker.splits worker_outcome.splits)
qed

lemma async_reachable_ok: "async_reachable E t parent c s \<Longrightarrow> async_ok E t parent c s"
  by (induction rule: async_reachable.induct) (auto intro: async_ok_initial async_ok_step)

section \<open>What an abandoned worker does\<close>

lemma worker_env_None: "execute (worker_env None E) t parent c = run E t parent c"
  by (simp add: worker_env_def token_at_def cancellation_is_cancelled_def run_def default_token_def)

lemma worker_env_paced [simp]: "paced k (worker_env set_at E) = paced k E"
  by (simp add: paced_def worker_env_def)

lemma worker_env_token: "token_set_by n (worker_env (Some n) E)"
  by (simp add: token_set_by_def worker_env_def token_at_def cancellation_is_cancelled_def)

lemma abandoned_worker_settles:
  assumes "paced k E"
  shows "\<exists>r h. execute (worker_env (Some n) E) t parent c = Some (r, h) \<and> settles h"
proof -
  obtain r h where run: "execute (worker_env (Some n) E) t parent c = Some (r, h)"
    using execute_returns [of k "worker_env (Some n) E" c n t parent] assms worker_env_token by auto
  moreover from this have "settles h" by (rule execute_settles)
  ultimately show ?thesis by blast
qed

end
