(* ===== verification/Unit_Tests.thy ===== *)
theory Unit_Tests
  imports Managed_Session Sample_Runs
begin

text \<open>
  The unit tests of \<open>supervisor.rs\<close> and \<open>managed.rs\<close>, translated like the code they test: each is a
  truth value made of its assertions, evaluated on the model of the operations it calls. That
  they pass ties the model to what the authors of the code expect of it. A fixture the tests make
  with the operating system is an environment or a value here.
\<close>

section \<open>Fixtures\<close>

definition fixture_out :: "byte list" where
  "fixture_out = [111, 117, 116]"

definition fixture_err :: "byte list" where
  "fixture_err = [101, 114, 114]"

definition fixture_evidence ::
  "capture_failure option \<Rightarrow> capture_failure option \<Rightarrow> lifecycle_evidence" where
  "fixture_evidence stdout_failure stderr_failure =
     \<lparr>leader_status = Some (ExitStatus 0),
      elapsed = Some (from_millis 1),
      signal = Sent,
      reap = \<lparr>disposition = Reaped, failures = []\<rparr>,
      le_stdout =
        \<lparr>report_stream = Stdout,
         captured =
           (if stdout_failure \<noteq> None then incomplete fixture_out 0 else settled fixture_out 0),
         report_failure = stdout_failure\<rparr>,
      le_stderr =
        \<lparr>report_stream = Stderr,
         captured =
           (if stderr_failure \<noteq> None then incomplete fixture_err 0 else settled fixture_err 0),
         report_failure = stderr_failure\<rparr>,
      cleanup = CleanupComplete\<rparr>"

text \<open>The standard output pipe fails every read, the standard error pipe never has anything.\<close>

definition faulting_env :: os_env where
  "faulting_env =
     (machine 0 0 [] False)\<lparr>on_read :=
        \<lambda>h p n. case p of
           ChildStdout \<Rightarrow> Err (io_other ''injected read failure'')
         | _ \<Rightarrow> Err (CustomError WouldBlock '''')\<rparr>"

section \<open>The tests of the supervisor\<close>

definition primary_precedence_is_stable :: bool where
  "primary_precedence_is_stable \<longleftrightarrow>
     (let obs = \<lparr>cancelled = True, deadline_elapsed = True, leader_waitable = True,
                 observe_error = Some (io_other ''observe''), reap_failures = []\<rparr>;
          (first, obs) = choose_primary obs (Some 7) (Some 9);
          (second, obs) = choose_primary obs None (Some 9);
          (third, obs) = choose_primary obs None None
      in first = PrimaryLimit Stdout 7 \<and> second = PrimaryLimit Stderr 9 \<and> third = PrimaryCancelled)"

definition settlement_cell :: "capture_failure option \<Rightarrow> capture_failure option \<Rightarrow> bool" where
  "settlement_cell stdout_failure stderr_failure \<longleftrightarrow>
     (let result = classify PrimaryExit (LabelText ''fixture'') (Some (from_secs 1))
            (fixture_evidence stdout_failure stderr_failure)
      in if stdout_failure = None \<and> stderr_failure = None
         then (case result of
                 Ok out \<Rightarrow>
                   cs_bytes (captured (le_stdout (out_evidence out))) = fixture_out \<and>
                   cs_bytes (captured (le_stderr (out_evidence out))) = fixture_err
               | Err _ \<Rightarrow> False)
         else (case result of
                 Err (CaptureFailed _ ev) \<Rightarrow>
                   report_stream (le_stdout ev) = Stdout \<and>
                   report_stream (le_stderr ev) = Stderr \<and>
                   cs_bytes (captured (le_stdout ev)) = fixture_out \<and>
                   cs_bytes (captured (le_stderr ev)) = fixture_err \<and>
                   first_capture_failure ev =
                     Some (if stdout_failure \<noteq> None then Stdout else Stderr)
               | _ \<Rightarrow> False))"

definition settlement_outcomes :: "capture_failure option list" where
  "settlement_outcomes =
     [None, Some (FailureRead OtherKind (Text ''fixture'')), Some FailureAllocation]"

definition settlement_matrix :: bool where
  "settlement_matrix \<longleftrightarrow>
     list_all (\<lambda>stdout_failure. list_all (settlement_cell stdout_failure) settlement_outcomes)
       settlement_outcomes"

definition is_incomplete :: "capture_completeness \<Rightarrow> bool" where
  "is_incomplete c \<longleftrightarrow> (case c of Incomplete _ \<Rightarrow> True | _ \<Rightarrow> False)"

definition unbounded_read_failure :: bool where
  "unbounded_read_failure \<longleftrightarrow>
     (case capture_unbounded (map of_char ''fault-injection fixture'') of
        Err _ \<Rightarrow> False
      | Ok policy \<Rightarrow>
          (let stdout = stream_new Stdout (Some ChildStdout) policy;
               stderr = stream_new Stderr (Some ChildStderr) (bounded 8);
               (stdout, h) = pump faulting_env 1 stdout [];
               (stderr, h) = pump faulting_env 1 stderr h
           in stream_failed stdout \<and> \<not> terminal stderr \<and>
              settlement_triggered observations_default False (stream_failed stdout) \<and>
              report_failure (into_report stdout) \<noteq> None \<and>
              is_incomplete (completeness (captured (into_report stdout))) \<and>
              is_incomplete (completeness (captured (into_report stderr)))))"

lemma supervisor_tests_pass: "primary_precedence_is_stable" "settlement_matrix" "unbounded_read_failure"
  by code_simp+

text \<open>The matrix test covers nine cells; every cell passes.\<close>

lemma settlement_cell_passes: "settlement_cell a b"
  by (cases a; cases b)
    (simp_all add: settlement_cell_def fixture_evidence_def classify_def capture_overrides_def
      classify_exit_def first_capture_failure_def settled_def incomplete_def output_new_def)

section \<open>The test of the handle\<close>

text \<open>
  The fixture's thread waits for a cancellation before it does anything else: the drop must
  return, and the message must be there, while the thread has not ended.
\<close>

definition drop_cancels_without_waiting :: bool where
  "drop_cancels_without_waiting \<longleftrightarrow>
     (let child = \<lparr>mc_id = 0, mc_stdin = None, mc_stdout = None, mc_stderr = None,
                   mc_supervisor = True, mc_result = None\<rparr>
      in case drop_managed child new_link of
           Finished _ link \<Rightarrow> lk_ended link = None \<and> cancel_answer link 0 = Received
         | Suspended _ _ _ \<Rightarrow> False)"

lemma handle_tests_pass: "drop_cancels_without_waiting"
  by code_simp

end
