(* ===== verification/Spec2Isabelle.thy ===== *)
theory Spec2Isabelle
  imports Managed_Properties Component_Properties Failed_Reaps Async_Future Unit_Tests
begin

text \<open>
  A verification development for \<^bold>\<open>epitelesis\<close>, a Rust crate that owns subprocesses: every
  child runs in a process group of its own, under a lifetime chosen before it can be started,
  and every invocation ends in one result that carries the evidence of what happened. The
  sources are under \<open>src/crates/epitelesis/src\<close>.

  \<^bold>\<open>The program.\<close> \<open>policy.rs\<close> has the policies and \<open>command.rs\<close> the builder that turns them
  into a prepared process builder; \<open>supervisor.rs\<close> runs it: a supervision loop polls the
  leader, a cancellation token, the deadline and the two capture pipes, until something settles
  the invocation; then the group is signalled and a cleanup loop of at most two seconds reaps
  the leader and drains the pipes; what is left is handed to a background reaper; \<open>output.rs\<close>
  and \<open>error.rs\<close> hold the evidence and the errors the result is classified into. A managed
  child (\<open>managed.rs\<close>) is supervised by a thread of its own, which the handle talks to over two
  channels. \<open>sync.rs\<close> and \<open>async_impl.rs\<close> are the entry points.

  \<^bold>\<open>The world.\<close> \<open>Os_Interface\<close> models the operating system, the clock, the allocator and the
  other threads as an environment: a function from the history of the calls an invocation has
  made to the answer of the next one. Every call of the source appends one event with its
  answer, so a theorem for every environment is a theorem for every behaviour of the child, the
  kernel and the clock. A read delivers at most the size of its buffer; nothing else is assumed
  of the environment. The system calls are those of the \<open>rustix\<close> and \<open>std\<close> crates.

  \<^bold>\<open>The theories, and what they model.\<close>
  \<^item> \<open>Epi_Prelude\<close>, \<open>Rust_Std\<close>, \<open>Ordered_Map\<close>, \<open>Std_Process\<close>: results, the loop combinator with
    its contracts (\<open>loop_contract\<close>, \<open>terminating_loop\<close>), saturating words; durations, I/O errors,
    paths; \<open>BTreeMap\<close> behind the interface \<open>ordered_map\<close>; the process builder of the standard
    library and the environment block a child receives.
  \<^item> \<open>Policy\<close>, \<open>Command_Builder\<close>: \<open>policy.rs\<close> and \<open>command.rs\<close>, every builder call, validation,
    preparation and Debug view; the intended environment as a finite map is the specification.
    \<open>Builder_Types\<close> has what the types promise: the commands a caller can build, as an inductive
    predicate, and the well-formedness every builder call keeps.
  \<^item> \<open>Evidence\<close>, \<open>Errors\<close>: the data of \<open>output.rs\<close> and \<open>error.rs\<close>. \<open>Captured_Text\<close>: the UTF-8 views
    of captured bytes, with the decoder of the standard library and its round trip. \<open>Messages\<close>: the
    \<open>Display\<close> texts as lists of pieces.
  \<^item> \<open>Lifecycle_Spec\<close>: what a lifecycle may do, as a monitor automaton over histories.
  \<^item> \<open>Capture\<close>: \<open>CaptureStream\<close>; the specification \<open>captures\<close> relates a stream's state to the
    bytes its pipe has delivered. The interfaces \<open>capture_sink\<close> and \<open>paired_sinks\<close> are what the
    supervisor uses of it.
  \<^item> \<open>Outcome\<close>: \<open>Observations\<close>, \<open>Primary\<close>, \<open>choose_primary\<close> and the three classifications.
  \<^item> \<open>Owned_Child\<close>: \<open>OwnedChild\<close> and the supervisor's use of it, behind \<open>leader_owner\<close>; \<open>owns\<close>
    relates an owner to the lifecycle automaton.
  \<^item> \<open>Supervisor\<close>: \<open>unix::execute\<close>. The record \<open>supervised\<close> has the local variables both
    supervisors mutate, \<open>exec_state\<close> adds the two streams; \<open>supervise_turn\<close> and \<open>cleanup_turn\<close> are
    the bodies of the two loops, \<open>begin_exec\<close>, \<open>signal_exec\<close> and \<open>conclude_exec\<close> the code around
    them. \<open>Supervisor_Invariants\<close>, \<open>Supervisor_Loops\<close>, \<open>Supervisor_Results\<close> and \<open>Executions\<close> prove
    what each step, each loop, the evidence and a whole execution keep; \<open>settles\<close> is what every
    whole execution promises about the child. \<open>Timing\<close> counts the calls of each step and bounds
    the time of an execution. \<open>Interruptions\<close> and \<open>Failed_Reaps\<close> have facts about tokens,
    observation failures and reaps that fail.
  \<^item> \<open>Managed_Supervisor\<close>, with \<open>Managed_Results\<close>, \<open>Managed_Executions\<close> and \<open>Managed_Timing\<close>: the
    supervisor thread of a managed child, over the steps it shares with captured executions.
  \<^item> \<open>Managed_Child\<close>: the handle, its operations over the channels, and its interleavings with the
    thread as the step relation \<open>step\<close>. An operation that would block is a suspended \<open>task\<close>: what
    it did to the channels so far can be seen by the thread, and it goes on when the thread has
    sent its result or ended. \<open>Managed_Handle\<close> proves the invariant of every interleaving and what
    is reported. \<open>Managed_Session\<close> composes the handle with the supervisor: what the supervisor
    receives is what the handle's call has sent by the time it is suspended or returns.
  \<^item> \<open>Adapters\<close>: \<open>run\<close>, \<open>output\<close>, \<open>status\<close>, the cancellation token and the asynchronous \<open>spawn\<close> with
    its guard. \<open>Async_Future\<close>: the future and its blocking worker as the step relation
    \<open>async_step\<close>, with the token they share. The worker's progress is the number of calls it has
    made, which the relation lets grow freely; its result is that of the execution whose token
    was set at the recorded call.
  \<^item> \<open>Sample_Runs\<close>: concrete machines and commands for the witnesses. \<open>Unit_Tests\<close>: the unit tests
    of the crate, evaluated on the model.
  \<^item> \<open>Component_Properties\<close>, \<open>Managed_Properties\<close> and this theory state the properties.

  \<^bold>\<open>Loops.\<close> A loop is \<open>run_loop\<close> of its body, a partial function whose \<open>None\<close> is a loop that
  never ends; no fuel is used. That the loops end is proved: every turn makes a call, and on a
  machine that makes at most \<open>k\<close> calls per nanosecond (\<open>paced\<close>) the cleanup loop is bounded by
  its budget and supervision by its deadline, by the exit of the leader, or by a cancellation.
  How soon they end is proved too: on a machine where no call takes longer than the time it asks
  to wait plus a margin (\<open>prompt\<close>), a loop overruns its bound by at most 40 margins.

  \<^bold>\<open>Numbers.\<close> Byte counts are 64-bit words with the source's saturating arithmetic. Durations
  and instants are nanoseconds; the range of an instant is a parameter, and the two places
  where the source checks it (\<open>checked_add\<close>) are modelled. Chunks are at most 8 KiB, so a chunk
  length always fits its word.

  \<^bold>\<open>Not modelled.\<close> Tracing, source locations, how the standard library renders a duration or an
  I/O error inside a message, the body of the background reaper thread and of the Tokio runtime,
  panics (that the supervisor thread panicked after startup is something the handle can observe,
  and that a worker was lost something the future can; a panic before the startup message is left
  out), and the parts of the repository that are not the crate.
\<close>

section \<open>Captured executions\<close>

text \<open>
  C1. Every invocation that returns has made an accepted sequence of calls and left no child
  alone. Accepted: at most one spawn; the group signalled before the leader is reaped; the leader
  reaped only after it was seen waitable; nothing signalled, observed or waited for after the
  leader was reaped or given to the background reaper; every call naming the spawned process. And
  a child that was spawned had its group signalled and its leader reaped or offered to the
  background reaper.
\<close>

theorem execution_lifecycle:
  assumes "execute E t parent c = Some (r, h)"
  shows "settles h"
  using assms by (rule execute_settles)

theorem execution_lifecycle_witness:
  "\<exists>r h. execute (machine 0 0 [104, 105] False) linux [] (echo one_second capture_policy_default) = Some (r, h) \<and>
     settles h"
proof -
  obtain r h where run: "execute (machine 0 0 [104, 105] False) linux []
      (echo one_second capture_policy_default) = Some (r, h)"
    using outcome_is_Some [OF sample_success] by blast
  from execution_lifecycle [OF run] run show ?thesis by blast
qed

text \<open>The pipe, the capture policy and the report of a stream.\<close>

fun stream_pipe :: "stream_name \<Rightarrow> pipe" where
  "stream_pipe Stdout = ChildStdout"
| "stream_pipe Stderr = ChildStderr"

fun stream_policy :: "stream_name \<Rightarrow> 's command \<Rightarrow> capture_policy" where
  "stream_policy Stdout c = c_stdout_capture c"
| "stream_policy Stderr c = c_stderr_capture c"

fun stream_report :: "stream_name \<Rightarrow> lifecycle_evidence \<Rightarrow> capture_report" where
  "stream_report Stdout ev = le_stdout ev"
| "stream_report Stderr ev = le_stderr ev"

lemma evidence_of_stream:
  "evidence_truthful (c_stdout_capture c) (c_stderr_capture c) pid h ev \<Longrightarrow>
     report_truthful (stream_policy stream c) (stream_pipe stream) (stream_report stream ev) h"
  by (cases stream) (simp_all add: evidence_truthful_def)

lemma execute_stream:
  assumes "execute E t parent c = Some (r, h)" and "run_evidence r = Some ev"
  shows "report_truthful (stream_policy stream c) (stream_pipe stream) (stream_report stream ev) h"
  using assms(1)
proof (cases rule: execute_cases)
  case (refused e)
  with assms(2) show ?thesis by simp
next
  case (settled pid obs ev')
  then have "ev' = ev" using assms(2) by (simp add: classify_evidence)
  with settled(4) show ?thesis by (auto intro: evidence_of_stream)
qed

text \<open>The streams a result lists as unfinished, in terms of what their pipes did.\<close>

definition left_open :: "history \<Rightarrow> lifecycle_evidence \<Rightarrow> stream_name \<Rightarrow> bool" where
  "left_open h ev stream \<longleftrightarrow>
     \<not> eof_seen (stream_pipe stream) h \<and>
     report_failure (stream_report stream ev) = None \<and>
     completeness (captured (stream_report stream ev)) \<noteq> Redirected"

lemma left_open_unfinished:
  "report_truthful policy (stream_pipe stream) (stream_report stream ev) h \<Longrightarrow>
     report_finished (stream_report stream ev) \<longleftrightarrow> \<not> left_open h ev stream"
  by (auto simp: report_truthful_def report_finished_def left_open_def split: capture_completeness.splits)

lemma unfinished_left_open:
  fixes c :: "'s command"
  assumes "evidence_truthful (c_stdout_capture c) (c_stderr_capture c) pid h ev"
    and "cleanup ev = CleanupIncomplete i"
  shows "unfinished_streams i = filter (left_open h ev) [Stdout, Stderr]"
proof -
  have "report_finished (le_stdout ev) \<longleftrightarrow> \<not> left_open h ev Stdout"
    "report_finished (le_stderr ev) \<longleftrightarrow> \<not> left_open h ev Stderr"
    using left_open_unfinished [OF evidence_of_stream [OF assms(1), of Stdout]]
      left_open_unfinished [OF evidence_of_stream [OF assms(1), of Stderr]] by simp_all
  moreover have "unfinished_streams i =
      (if report_finished (le_stdout ev) then [] else [Stdout]) @
      (if report_finished (le_stderr ev) then [] else [Stderr])"
    using assms by (auto simp: evidence_truthful_def cleanup_truthful_def Let_def split: if_splits)
  ultimately show ?thesis by simp
qed

text \<open>
  C2. The evidence of a result agrees with what happened: the streams' reports with the bytes
  and end-of-file markers the pipes delivered, the signal outcome with the kernel's answer, the
  status with the reap, a background reaper with an accepted transfer, and the cleanup outcome
  with all of these. An incomplete cleanup lists exactly the captured streams whose pipes neither
  reached end of file nor failed. (A stream that failed is left out although its pipe did not
  reach end of file; the comment on the field says otherwise.)
\<close>

theorem execution_evidence:
  assumes "execute E t parent c = Some (r, h)" and "run_evidence r = Some ev"
  shows "(\<exists>pid. EvSpawn (Ok pid) \<in> set h \<and>
      evidence_truthful (c_stdout_capture c) (c_stderr_capture c) pid h ev) \<and>
    (\<forall>i. cleanup ev = CleanupIncomplete i \<longrightarrow>
       unfinished_streams i = filter (left_open h ev) [Stdout, Stderr])"
  using assms(1)
proof (cases rule: execute_cases)
  case (refused e)
  with assms(2) show ?thesis by simp
next
  case (settled pid obs ev')
  then have "ev' = ev" using assms(2) by (simp add: classify_evidence)
  with settled unfinished_left_open [of c pid h ev] show ?thesis by blast
qed

text \<open>
  A child whose standard output fails to be read and whose standard error never ends: only the
  latter is listed, though neither pipe reached end of file.
\<close>

definition faulty_machine :: os_env where
  "faulty_machine =
     (machine 0 0 [] False)\<lparr>on_now := \<lambda>h. length h * 100000000,
       on_read := \<lambda>h p n. if p = ChildStdout then Err (io_other ''fault'') else Err (OsError EAGAIN)\<rparr>"

fun fails_open :: "epi_error + run_output \<Rightarrow> history \<Rightarrow> bool" where
  "fails_open (Ok out) h \<longleftrightarrow> False"
| "fails_open (Err e) h \<longleftrightarrow>
     (case error_evidence e of
        Some ev \<Rightarrow>
          report_failure (le_stdout ev) \<noteq> None \<and> left_open h ev Stderr \<and> \<not> eof_seen ChildStdout h \<and>
          (case cleanup ev of CleanupIncomplete _ \<Rightarrow> True | _ \<Rightarrow> False)
      | None \<Rightarrow> False)"

theorem execution_evidence_witness:
  "\<exists>e h ev i pid. execute faulty_machine linux [] (echo one_second capture_policy_default) = Some (Err e, h) \<and>
     error_evidence e = Some ev \<and>
     evidence_truthful capture_policy_default capture_policy_default pid h ev \<and>
     cleanup ev = CleanupIncomplete i \<and> unfinished_streams i = [Stderr] \<and> \<not> eof_seen ChildStdout h"
proof -
  let ?run = "execute faulty_machine linux [] (echo one_second capture_policy_default)"
  have "case ?run of Some (r, h) \<Rightarrow> fails_open r h | None \<Rightarrow> False"
    by code_simp
  then obtain r h where run: "?run = Some (r, h)" "fails_open r h"
    by (auto split: option.splits)
  then obtain e where r: "r = Err e" by (cases r) simp_all
  with run(2) obtain ev i where ev: "error_evidence e = Some ev" "report_failure (le_stdout ev) \<noteq> None"
    "left_open h ev Stderr" "\<not> eof_seen ChildStdout h" "cleanup ev = CleanupIncomplete i"
    by (auto split: option.splits cleanup_outcome.splits)
  have "\<not> left_open h ev Stdout" using ev(2) by (simp add: left_open_def)
  with ev execution_evidence [OF run(1), of ev] run(1) r show ?thesis
    by (auto simp: echo_def capture_stdout_def into_state_def command_new_def)
qed

text \<open>A stream of a successful execution: whole, unless the command lets it be cut.\<close>

definition stream_settled :: "capture_policy \<Rightarrow> pipe \<Rightarrow> capture_report \<Rightarrow> history \<Rightarrow> bool" where
  "stream_settled policy p rep h \<longleftrightarrow>
     report_failure rep = None \<and> cs_bytes (captured rep) = retained_by policy (bytes_read p h) \<and>
     ((\<forall>limit. policy \<noteq> Bounded limit TruncateAndDrain) \<longrightarrow>
        cs_bytes (captured rep) = bytes_read p h \<and>
        (eof_seen p h \<or> completeness (captured rep) = Redirected))"

text \<open>
  C3. Success is earned: an \<open>Ok\<close> result means the leader was spawned, its group signalled, the
  leader reaped with a zero status, cleanup complete without failures, and both streams
  captured to the end -- every byte of them unless the command lets a stream be truncated.
\<close>

theorem execution_success:
  assumes "execute E t parent c = Some (Ok out, h)"
  shows "success (out_status out) \<and>
    (\<exists>pid k. EvSpawn (Ok pid) \<in> set h \<and> EvKill pid k \<in> set h \<and> EvWait pid (Ok (out_status out)) \<in> set h) \<and>
    settled_exit (out_evidence out) \<and> leader_status (out_evidence out) = Some (out_status out) \<and>
    stream_settled (c_stdout_capture c) ChildStdout (le_stdout (out_evidence out)) h \<and>
    stream_settled (c_stderr_capture c) ChildStderr (le_stderr (out_evidence out)) h"
  using assms
proof (cases rule: execute_cases)
  case (settled pid obs ev)
  from settled(1) [symmetric, unfolded classify_Ok] obtain st where ok: "settled_exit ev" "leader_status ev = Some st" "success st"
    "out = output_new st ev" "first_capture_failure ev = None"
    and p: "fst (choose_primary obs
          (overflow_of (c_stdout_capture c) (length (bytes_read ChildStdout h)))
          (overflow_of (c_stderr_capture c) (length (bytes_read ChildStderr h)))) = PrimaryExit"
    by blast
  from settled(4) have truth: "report_truthful (c_stdout_capture c) ChildStdout (le_stdout ev) h"
    "report_truthful (c_stderr_capture c) ChildStderr (le_stderr ev) h"
    and kill: "\<exists>k. EvKill pid k \<in> set h" and reaped: "settlement_truthful pid h ev"
    and clean: "cleanup_truthful ev"
    by (auto simp: evidence_truthful_def)
  have fin: "report_finished (le_stdout ev)" "report_finished (le_stderr ev)"
    using clean ok(1) by (auto simp: cleanup_truthful_def settled_exit_def Let_def split: if_splits)
  have "EvWait pid (Ok st) \<in> set h"
    using reaped ok(2) by (simp add: settlement_truthful_def)
  moreover have "stream_settled (c_stdout_capture c) ChildStdout (le_stdout ev) h"
    "stream_settled (c_stderr_capture c) ChildStderr (le_stderr ev) h"
    using truthful_whole [OF truth(1) fin(1)] truthful_whole [OF truth(2) fin(2)] p ok(5)
    by (simp_all add: stream_settled_def choose_primary_Exit first_capture_failure_None)
  ultimately show ?thesis
    using ok settled(3) kill by auto
qed (use assms in simp)

theorem execution_success_witness:
  "\<exists>out h. execute (machine 0 0 [104, 105] False) linux [] (echo one_second capture_policy_default)
       = Some (Ok out, h) \<and> success (out_status out)"
proof -
  obtain r h where run: "execute (machine 0 0 [104, 105] False) linux []
      (echo one_second capture_policy_default) = Some (r, h)" "is_ok r"
    using outcome_is_Some [OF sample_success] by blast
  then obtain out where "r = Ok out" by (cases r) simp_all
  with run execution_success [of "machine 0 0 [104, 105] False" linux "[]"
      "echo one_second capture_policy_default" out h] show ?thesis by blast
qed

text \<open>
  C4. A result without evidence is an invocation that spawned no child and signalled nothing.
\<close>

theorem execution_without_evidence:
  assumes "execute E t parent c = Some (r, h)" and "run_evidence r = None"
  shows "EvSpawn (Ok pid) \<notin> set h \<and> EvKill pid k \<notin> set h"
  using assms(1)
proof (cases rule: execute_cases)
  case (settled pid' obs ev)
  with assms(2) show ?thesis by (simp add: classify_evidence)
qed auto

fun refused_spawn :: "epi_error + run_output \<Rightarrow> bool" where
  "refused_spawn (Err (SpawnFailed _ source)) \<longleftrightarrow> source = OsError (Errno 2)"
| "refused_spawn _ \<longleftrightarrow> False"

text \<open>The reaper thread was started and the clock read; then the kernel refuses the spawn.\<close>

theorem execution_without_evidence_witness:
  "\<exists>program h. execute ((machine 0 0 [] False)\<lparr>on_spawn := \<lambda>_ _. Err (OsError (Errno 2))\<rparr>) linux []
       (echo one_second capture_policy_default) = Some (Err (SpawnFailed program (OsError (Errno 2))), h) \<and>
     EvSpawn (Err (OsError (Errno 2))) \<in> set h \<and> EvSpawn (Ok 42) \<notin> set h \<and> EvKill 42 (Ok ()) \<notin> set h"
proof -
  let ?run = "execute ((machine 0 0 [] False)\<lparr>on_spawn := \<lambda>_ _. Err (OsError (Errno 2))\<rparr>) linux []
       (echo one_second capture_policy_default)"
  have "outcome_is refused_spawn ?run \<and> outcome_has (\<lambda>e. e = EvSpawn (Err (OsError (Errno 2)))) ?run"
    by code_simp
  then obtain r h where run: "?run = Some (r, h)" "refused_spawn r" "EvSpawn (Err (OsError (Errno 2))) \<in> set h"
    using outcome_is_Some [of refused_spawn ?run]
      outcome_has_Some [of "\<lambda>e. e = EvSpawn (Err (OsError (Errno 2)))" ?run] by auto
  then obtain program where r: "r = Err (SpawnFailed program (OsError (Errno 2)))"
    by (cases r rule: refused_spawn.cases) auto
  with execution_without_evidence [OF run(1), of 42 "Ok ()"] run(1,3) show ?thesis by simp
qed

text \<open>
  C5. A stream limit is reported exactly when it was exceeded: with a fail-closed bound on the
  standard output, the result is \<open>CaptureLimitExceeded\<close> for it if and only if the pipe
  delivered more bytes than the bound; for the standard error, if and only if that stream
  exceeded its bound and the standard output did not.
\<close>

theorem execution_limit:
  assumes "execute E t parent c = Some (r, h)" and "run_evidence r = Some ev"
  shows "(\<exists>program. r = Err (CaptureLimitExceeded program stream limit ev)) \<longleftrightarrow>
    (let out = overflow_of (c_stdout_capture c) (length (bytes_read ChildStdout h));
         err = overflow_of (c_stderr_capture c) (length (bytes_read ChildStderr h))
     in case stream of Stdout \<Rightarrow> out = Some limit | Stderr \<Rightarrow> out = None \<and> err = Some limit)"
  using assms(1)
proof (cases rule: execute_cases)
  case (refused e)
  with assms(2) show ?thesis by simp
next
  case (settled pid obs ev')
  then have "ev' = ev" using assms(2) by (simp add: classify_evidence)
  with settled(1) show ?thesis
    by (cases stream) (auto simp: classify_Limit choose_primary_Limit)
qed

theorem execution_limit_witness:
  "\<exists>r h ev. execute (machine 15 0 [104, 105] False) linux [] (echo one_second (bounded 1)) = Some (r, h) \<and>
     run_evidence r = Some ev \<and> overflow_of (bounded 1) (length (bytes_read ChildStdout h)) = Some 1"
proof -
  obtain r h where run: "execute (machine 15 0 [104, 105] False) linux [] (echo one_second (bounded 1)) = Some (r, h)"
    "is_limit r"
    using outcome_is_Some [OF sample_limit] by blast
  then obtain prog ev where r: "r = Err (CaptureLimitExceeded prog Stdout 1 ev)"
    by (cases r rule: is_limit.cases) auto
  with execution_limit [OF run(1), of ev Stdout 1] run(1) show ?thesis
    by (auto simp: Let_def echo_def capture_stdout_def)
qed

text \<open>
  C6. A timeout is reported only for a command with a deadline, with that deadline, and only
  after the clock was read at or past the start plus the deadline.
\<close>

theorem execution_timeout:
  assumes "execute E t parent c = Some (Err (Timeout program d ev), h)"
  shows "execution (c_state c) = Deadline d \<and>
    (\<exists>started now. EvNow started \<in> set h \<and> EvNow now \<in> set h \<and> started + d \<le> now)"
  using assms
proof (cases rule: execute_cases)
  case (settled pid obs ev')
  note timeout = classify_Timeout [OF settled(1) [symmetric]]
  from settled(6) choose_primary_deadline timeout
  obtain d' started now where "execution (c_state c) = Deadline d'" "EvNow started \<in> set h"
    "EvNow now \<in> set h" "started + d' \<le> now" by blast
  with timeout show ?thesis by (auto simp: execution_duration_def)
qed auto

theorem execution_timeout_witness:
  "\<exists>program d ev h started now.
     execute (machine 10 0 [] False) linux [] (echo (Deadline (from_millis 1)) capture_policy_default)
       = Some (Err (Timeout program d ev), h) \<and>
     EvNow started \<in> set h \<and> EvNow now \<in> set h \<and> started + d \<le> now"
proof -
  obtain r h where run: "execute (machine 10 0 [] False) linux []
      (echo (Deadline (from_millis 1)) capture_policy_default) = Some (r, h)" "is_timeout r"
    using outcome_is_Some [OF sample_timeout] by blast
  then obtain program d ev where "r = Err (Timeout program d ev)"
    by (cases r rule: is_timeout.cases) auto
  with run(1) execution_timeout [of "machine 10 0 [] False" linux "[]"
      "echo (Deadline (from_millis 1)) capture_policy_default" program d ev h] show ?thesis
    by blast
qed

text \<open>
  C7. A cancellation is reported only if the token was read as set, and only if no stream had
  exceeded a fail-closed bound.
\<close>

theorem execution_cancelled:
  assumes "execute E t parent c = Some (Err (Cancelled program ev), h)"
  shows "(\<exists>e \<in> set h. cancels e) \<and>
    overflow_of (c_stdout_capture c) (length (bytes_read ChildStdout h)) = None \<and>
    overflow_of (c_stderr_capture c) (length (bytes_read ChildStderr h)) = None"
  using assms
proof (cases rule: execute_cases)
  case (settled pid obs ev')
  with classify_Cancelled [OF settled(1) [symmetric]] show ?thesis
    by (auto simp: choose_primary_Cancelled)
qed auto

theorem execution_cancelled_witness:
  "\<exists>program ev h. execute (machine 0 0 [] True) linux [] (echo one_second capture_policy_default)
       = Some (Err (Cancelled program ev), h) \<and> (\<exists>e \<in> set h. cancels e)"
proof -
  obtain r h where run: "execute (machine 0 0 [] True) linux []
      (echo one_second capture_policy_default) = Some (r, h)" "is_cancelled_error r"
    using outcome_is_Some [OF sample_cancelled] by blast
  then obtain program ev where "r = Err (Cancelled program ev)"
    by (cases r rule: is_cancelled_error.cases) auto
  with run(1) execution_cancelled [of "machine 0 0 [] True" linux "[]"
      "echo one_second capture_policy_default" program ev h] show ?thesis
    by blast
qed

text \<open>
  C8. Every invocation with a deadline returns, on any machine on which a call takes some
  time: the supervision loop and the cleanup loop both end, whatever the child, the pipes and
  the kernel do. An invocation without a deadline returns once the leader exits or the token
  is set.
\<close>

theorem execution_returns:
  assumes "paced k E"
    and "(\<exists>d. execution (c_state c) = Deadline d) \<or> exits_by n E \<or> token_set_by n E"
  shows "\<exists>r h. execute E t parent c = Some (r, h)"
  using assms by (rule execute_returns)

theorem execution_returns_witness:
  "\<exists>r h. execute (machine 7 0 [] False) linux [] (echo one_second capture_policy_default) = Some (r, h)"
  by (rule execution_returns [OF machine_paced, of _ 0])
    (simp add: echo_def capture_stdout_def into_state_def one_second_def ready_new_def)

text \<open>
  C9. What is held of a stream, standard output or standard error, never exceeds its bound,
  whatever the outcome.
\<close>

theorem execution_within_limit:
  assumes "execute E t parent c = Some (r, h)" and "run_evidence r = Some ev"
    and "stream_policy stream c = Bounded limit overflow"
  shows "length (cs_bytes (captured (stream_report stream ev))) \<le> unat limit"
  using execute_stream [OF assms(1,2), of stream] assms(3) by (auto intro: report_within_limit)

theorem execution_within_limit_witness:
  "\<exists>r h ev. execute (machine 15 0 [104, 105] False) linux [] (echo one_second (bounded 1)) = Some (r, h) \<and>
     run_evidence r = Some ev \<and> length (cs_bytes (captured (le_stdout ev))) \<le> unat (1 :: usize)"
proof -
  obtain r h where run: "execute (machine 15 0 [104, 105] False) linux [] (echo one_second (bounded 1)) = Some (r, h)"
    "is_limit r"
    using outcome_is_Some [OF sample_limit] by blast
  then obtain prog ev where r: "r = Err (CaptureLimitExceeded prog Stdout 1 ev)"
    by (cases r rule: is_limit.cases) auto
  have "stream_policy Stdout (echo one_second (bounded 1)) = Bounded 1 FailClosed"
    by (simp add: echo_def capture_stdout_def bounded_def)
  from execution_within_limit [OF run(1) _ this, of ev] r run(1) show ?thesis by auto
qed

text \<open>
  C10. The order of a reap, spelled out: wherever an invocation's history has a wait for the
  leader, the group was signalled and the leader seen waitable before it; and after a
  successful one the leader's process id is never used again.
\<close>

theorem execution_reap_order:
  assumes "execute E t parent c = Some (r, before @ EvWait pid w # after)"
  shows "(\<exists>k. EvKill pid k \<in> set before) \<and> (\<exists>st. EvWaitId pid (Ok (Some st)) \<in> set before) \<and>
    (is_ok w \<longrightarrow> (\<forall>e \<in> set after. \<not> touches_leader e))"
proof -
  have ok: "lifecycle_ok (before @ EvWait pid w # after)"
    using assms by (cases rule: execute_cases) auto
  show ?thesis
    using accepted_wait [OF ok refl] accepted_after_reap [of "before @ EvWait pid w # after" before pid _ after] ok
    by (cases w) auto
qed

theorem execution_reap_order_witness:
  "\<exists>r before w after. execute (machine 0 0 [104, 105] False) linux [] (echo one_second capture_policy_default)
       = Some (r, before @ EvWait 42 w # after) \<and> (\<exists>k. EvKill 42 k \<in> set before)"
proof -
  have "outcome_has (\<lambda>e. case e of EvWait pid _ \<Rightarrow> pid = 42 | _ \<Rightarrow> False)
      (execute (machine 0 0 [104, 105] False) linux [] (echo one_second capture_policy_default))"
    by code_simp
  then obtain r h e where run: "execute (machine 0 0 [104, 105] False) linux []
      (echo one_second capture_policy_default) = Some (r, h)" "e \<in> set h"
      "case e of EvWait pid _ \<Rightarrow> pid = 42 | _ \<Rightarrow> False"
    using outcome_has_Some by blast
  then obtain w before after where "h = before @ EvWait 42 w # after"
    by (cases e) (auto dest: split_list)
  with run(1) execution_reap_order [of "machine 0 0 [104, 105] False" linux "[]"
      "echo one_second capture_policy_default" r before 42 w after] show ?thesis by blast
qed

lemma one_second_deadline:
  "execution (c_state (echo one_second policy)) = Deadline (from_secs 1)"
  by (simp add: echo_def capture_stdout_def into_state_def one_second_def ready_new_def)



section \<open>Adapters\<close>

lemma classify_label:
  "classify p program d ev = Err (SupervisionFailed program' source ev') \<Longrightarrow> program' = program"
  by (auto simp: classify_def capture_overrides_def classify_exit_def Let_def
      split: primary.splits option.splits if_splits)

text \<open>
  C12. \<open>output\<close> turns a non-zero exit into a value without losing anything: it never answers
  \<open>NonZeroExit\<close>, its fallback for a missing status is never taken, and the status of an
  \<open>Ok\<close> value -- which is also what \<open>status\<close> answers -- is the one the kernel gave when the leader
  was reaped, after a settled lifecycle.
\<close>

theorem output_keeps_exit:
  assumes "invoke_output E t parent c = Some (r, h)"
  shows "(\<forall>program ev. r \<noteq> Err (NonZeroExit program ev)) \<and>
    (\<forall>source ev. r \<noteq> Err (SupervisionFailed (LabelText ''output invocation'') source ev)) \<and>
    (\<forall>out. r = Ok out \<longrightarrow> settled_exit (out_evidence out) \<and>
       (\<exists>pid. EvSpawn (Ok pid) \<in> set h \<and> EvWait pid (Ok (out_status out)) \<in> set h) \<and>
       invoke_status E t parent c = Some (Ok (out_status out), h))"
proof -
  obtain r0 where run: "execute (default_token E) t parent c = Some (r0, h)" and r: "r = keep_non_zero r0"
    using assms by (auto simp: invoke_output_def run_def)
  have status: "invoke_status E t parent c = Some (map_sum id out_status r, h)"
    using assms by (simp add: invoke_status_def)
  show ?thesis
    using run
  proof (cases rule: execute_cases)
    case (refused e)
    then have "r = Err e" using r by (cases e) (simp_all add: keep_non_zero_def)
    with refused(2) show ?thesis by auto
  next
    case (settled pid obs ev)
    have waited: "EvWait pid (Ok st) \<in> set h" if "leader_status ev = Some st" for st
      using settled(4) that by (auto simp: evidence_truthful_def settlement_truthful_def)
    show ?thesis
    proof (cases r0)
      case (Inr out)
      with settled(1) have "settled_exit ev" "leader_status ev = Some (out_status out)" "out_evidence out = ev"
        by (auto simp: classify_Ok dest!: sym [of "Ok out"])
      with Inr r waited settled(3) status show ?thesis by (auto simp: keep_non_zero_def)
    next
      case (Inl e)
      show ?thesis
      proof (cases "\<exists>program ev'. e = NonZeroExit program ev'")
        case True
        with settled(1) Inl obtain program where e: "e = NonZeroExit program ev"
          and "settled_exit ev" "\<exists>st. leader_status ev = Some st"
          by (metis classify_NonZero)
        with Inl r waited settled(3) status show ?thesis by (fastforce simp: keep_non_zero_def)
      next
        case False
        then have "r = Err e" using Inl r by (auto simp: keep_non_zero_def split: epi_error.split)
        with False Inl settled(1) show ?thesis by (metis Inl_inject Inr_not_Inl classify_label label.distinct(1))
      qed
    qed
  qed
qed

theorem output_keeps_exit_witness:
  "\<exists>out h pid. invoke_output (machine 0 3 [] False) linux [] (echo one_second capture_policy_default)
      = Some (Ok out, h) \<and> EvWait pid (Ok (out_status out)) \<in> set h"
proof -
  have "outcome_is is_ok (invoke_output (machine 0 3 [] False) linux [] (echo one_second capture_policy_default))"
    by code_simp
  then obtain r h where run: "invoke_output (machine 0 3 [] False) linux [] (echo one_second capture_policy_default)
      = Some (r, h)" "is_ok r"
    using outcome_is_Some by blast
  then obtain out where "r = Ok out" by (cases r) simp_all
  with run(1) output_keeps_exit [of "machine 0 3 [] False" linux "[]"
      "echo one_second capture_policy_default" r h] show ?thesis
    by blast
qed

text \<open>
  C13. An invocation through \<open>run\<close> is never reported as cancelled: its token is shared with
  nobody.
\<close>

theorem run_never_cancelled:
  assumes "run E t parent c = Some (r, h)"
  shows "r \<noteq> Err (Cancelled program ev)"
  using assms execute_never_cancelled [of "default_token E" t parent c r h program ev]
  by (simp add: run_def never_cancelled_def)

theorem run_never_cancelled_witness:
  "\<exists>r h. run (machine 0 3 [] True) linux [] (echo one_second capture_policy_default) = Some (r, h) \<and>
     r \<noteq> Err (Cancelled (LabelText ''x'') unknown_evidence)"
proof -
  have "paced 1 (default_token (machine 0 3 [] True))" by (simp add: paced_def default_token_def machine_def)
  then obtain r h where "run (machine 0 3 [] True) linux [] (echo one_second capture_policy_default) = Some (r, h)"
    using execute_returns [of 1 "default_token (machine 0 3 [] True)" "echo one_second capture_policy_default" 0 linux "[]"]
    by (auto simp: run_def echo_def capture_stdout_def into_state_def one_second_def ready_new_def)
  with run_never_cancelled [OF this] show ?thesis by blast
qed

section \<open>The asynchronous adapter\<close>

text \<open>
  C14. Awaiting the future of \<open>spawn\<close> is calling \<open>run\<close>: in every interleaving of the future with
  its worker, a future that was awaited to the end returns the result of \<open>run\<close> for the same
  command -- or, if the worker was lost, a supervision failure that admits to knowing nothing,
  and only then is the shared token set.
\<close>

theorem awaited_future_is_run:
  assumes "async_reachable E t parent c s" and "as_future s = Returned r"
  shows "(\<exists>h. as_worker s = Done (Joined r) h \<and> run E t parent c = Some (r, h) \<and> \<not> as_token s) \<or>
    (\<exists>message h. as_worker s = Done (JoinFailed message) h \<and> as_token s \<and>
      r = Err (SupervisionFailed (LabelText ''asynchronous supervisor'') (io_other message) unknown_evidence))"
proof -
  from async_reachable_ok [OF assms(1)] assms(2) obtain w h where w: "as_worker s = Done w h"
    "r = fst (spawn_resume w False)" "as_token s \<longleftrightarrow> (\<exists>message. w = JoinFailed message)"
    "\<forall>r'. w = Joined r' \<longrightarrow> execute (worker_env None E) t parent c = Some (r', h)"
    by (auto simp: async_ok_def)
  then show ?thesis
    by (cases w) (simp_all add: spawn_resume_cases worker_env_None)
qed

lemma worker_calls:
  assumes "async_reachable E t parent c s" and "as_worker s = Working n"
  shows "async_reachable E t parent c (s\<lparr>as_worker := Working (n + k)\<rparr>)"
proof (induction k)
  case 0
  have "s\<lparr>as_worker := Working n\<rparr> = s" using assms(2) by simp
  with assms(1) show ?case by simp
next
  case (Suc k)
  from stepped [OF Suc worker_call [of "s\<lparr>as_worker := Working (n + k)\<rparr>" "n + k"]]
  show ?case by simp
qed

lemma first_polled: "async_reachable E t parent c
    (async_initial\<lparr>as_future := Awaiting spawn_guard, as_worker := Working n\<rparr>)"
proof -
  have "async_reachable E t parent c
      (async_initial\<lparr>as_future := Awaiting spawn_guard, as_worker := Working 0\<rparr>)"
    by (rule stepped [OF created first_poll]) (simp add: async_initial_def)
  from worker_calls [OF this, of 0 n] show ?thesis by simp
qed

theorem awaited_future_is_run_witness:
  "\<exists>r h s. run (machine 0 0 [104, 105] False) linux [] (echo one_second capture_policy_default) = Some (r, h) \<and>
     async_reachable (machine 0 0 [104, 105] False) linux [] (echo one_second capture_policy_default) s \<and>
     as_future s = Returned r"
proof -
  let ?E = "machine 0 0 [104, 105] False" and ?c = "echo one_second capture_policy_default"
  have "paced 1 (default_token ?E)" by (simp add: paced_def default_token_def machine_def)
  then obtain r h where run: "run ?E linux [] ?c = Some (r, h)"
    using execute_returns [of 1 "default_token ?E" ?c 0 linux "[]"] one_second_deadline
    by (auto simp: run_def)
  let ?w = "async_initial\<lparr>as_future := Awaiting spawn_guard, as_worker := Working (length h)\<rparr>"
  let ?d = "?w\<lparr>as_worker := Done (Joined r) h\<rparr>"
  have "async_step ?E linux [] ?c ?w ?d"
    using run by (intro worker_done [of _ "length h"]) (simp_all add: async_initial_def worker_env_None)
  from stepped [OF first_polled this] have d: "async_reachable ?E linux [] ?c ?d" .
  have "async_step ?E linux [] ?c ?d (set_token False (?d\<lparr>as_future := Returned r\<rparr>))"
    by (rule future_resumes [of _ spawn_guard "Joined r" h])
      (simp_all add: spawn_resume_cases async_initial_def)
  from stepped [OF d this] have s: "async_reachable ?E linux [] ?c (set_token False (?d\<lparr>as_future := Returned r\<rparr>))" .
  from awaited_future_is_run [OF this, of r] s run show ?thesis by fastforce
qed

text \<open>
  C15. Abandoning the future abandons no process: in every interleaving, a future dropped before
  its first poll started no worker; one dropped while its worker runs has set the shared token,
  and the invocation that worker is executing returns, with or without a deadline; and whatever
  worker has finished has signalled its group and reaped or given away its leader.
\<close>

theorem abandoned_future_settles:
  assumes "paced k E" and "async_reachable E t parent c s" and "as_future s = Dropped"
  shows "case as_worker s of
      NotStarted \<Rightarrow> \<not> as_token s
    | Working n \<Rightarrow> as_token s \<and>
        (\<exists>r h. execute (worker_env (as_set_at s) E) t parent c = Some (r, h) \<and> settles h)
    | Done (Joined r) h \<Rightarrow> settles h
    | Done (JoinFailed message) h \<Rightarrow> as_token s"
  using async_reachable_ok [OF assms(2)] assms(3) abandoned_worker_settles [OF assms(1)]
  by (auto simp: async_ok_def run_result_def dest: execute_settles split: worker.splits worker_outcome.splits)

theorem abandoned_future_settles_witness:
  "\<exists>s r h. async_reachable (machine 1000 0 [] False) linux []
      (echo (Unbounded (NonEmptyReason [65])) capture_policy_default) s \<and> as_future s = Dropped \<and>
     execute (worker_env (as_set_at s) (machine 1000 0 [] False)) linux []
       (echo (Unbounded (NonEmptyReason [65])) capture_policy_default) = Some (r, h) \<and> settles h"
proof -
  let ?E = "machine 1000 0 [] False" and ?c = "echo (Unbounded (NonEmptyReason [65])) capture_policy_default"
  let ?w = "async_initial\<lparr>as_future := Awaiting spawn_guard, as_worker := Working 30\<rparr>"
  have "async_reachable ?E linux [] ?c (drop_future ?w)"
    by (rule stepped [OF first_polled future_drops]) simp
  moreover have "as_future (drop_future ?w) = Dropped" "as_worker (drop_future ?w) = Working 30"
    by (simp_all add: drop_future_def)
  ultimately show ?thesis
    using abandoned_future_settles [OF machine_paced, where c = ?c and t = linux
        and parent = "[]" and s = "drop_future ?w"] by fastforce
qed

section \<open>Supervision that could not observe or reap\<close>

text \<open>
  C16. After an observation failure the leader is not reaped: once polling or observing failed
  before the leader was seen waitable, the cleanup loop leaves only when its whole budget is
  used up, and the leader is still owned then and goes to the background reaper.
\<close>

theorem observation_failure_forfeits_reap:
  assumes "observe_error (ex_obs s) \<noteq> None" and "\<not> leader_waitable (ex_obs s)"
    and "has_child (ex_owned s)" and "run_loop (cleanup_turn E dl cl) s = Some s'"
  shows "has_child (ex_owned s') \<and> \<not> leader_waitable (ex_obs s') \<and>
    (\<exists>now. EvNow now \<in> set (ex_hist s') \<and> cl \<le> now)"
  using blinded_cleaning.result [OF assms(4)] assms(1-3) by (auto simp: blinded_def)

definition blind_state :: exec_state where
  "blind_state =
     \<lparr>ex_owned = owned_new \<lparr>child_id = 42, child_stdin = None, child_stdout = None, child_stderr = None\<rparr> ReaperSender,
      ex_obs = observations_default\<lparr>observe_error := Some (OsError (Errno 12))\<rparr>, ex_status = None,
      ex_reap = Unreaped, ex_hist = [], ex_stdout = stream_new Stdout None capture_policy_default,
      ex_stderr = stream_new Stderr None capture_policy_default, ex_stdout_first = True\<rparr>"

theorem observation_failure_forfeits_reap_witness:
  "\<exists>s'. run_loop (cleanup_turn (machine 0 0 [] False) None 5000000) blind_state = Some s' \<and>
     has_child (ex_owned s')"
proof -
  have "case run_loop (cleanup_turn (machine 0 0 [] False) None 5000000) blind_state of
      Some _ \<Rightarrow> True | None \<Rightarrow> False"
    by code_simp
  then obtain s' where run: "run_loop (cleanup_turn (machine 0 0 [] False) None 5000000) blind_state = Some s'"
    by (auto split: option.splits)
  have "has_child (ex_owned s')"
    using observation_failure_forfeits_reap [OF _ _ _ run]
    by (simp add: blind_state_def observations_default_def has_child_def owned_new_def)
  with run show ?thesis by blast
qed

text \<open>
  C17. A failed reap ends the cleanup on the spot: the calls after it offer the leader to the
  background reaper, read the clock once for the elapsed time and, if the offer was refused,
  signal the group again; and the result reports an incomplete cleanup with an unsettled leader,
  however much of the budget was left.
\<close>

theorem failed_reap_ends_cleanup:
  assumes "execute E t parent c = Some (r, before @ EvWait pid (Err e) # after)"
  shows "(\<exists>ev i. run_evidence r = Some ev \<and> cleanup ev = CleanupIncomplete i \<and> leader_unsettled i) \<and>
    (\<exists>now accepted k. after = EvHandOff pid accepted # EvNow now # (if accepted then [] else [EvKill pid k]))"
  using assms by (rule execute_failed_reap)

fun is_early_incomplete :: "epi_error + run_output \<Rightarrow> bool" where
  "is_early_incomplete (Err e) \<longleftrightarrow>
     (case error_evidence e of
        Some ev \<Rightarrow> (case elapsed ev of Some d \<Rightarrow> d < from_millis 100 | None \<Rightarrow> False)
      | None \<Rightarrow> False)"
| "is_early_incomplete (Ok out) \<longleftrightarrow> False"

text \<open>Here the whole invocation took less than a tenth of a second of a two-second budget.\<close>

theorem failed_reap_ends_cleanup_witness:
  "\<exists>e ev i d h. execute ((machine 0 0 [] False)\<lparr>on_wait := \<lambda>_ _. Err (OsError (Errno 10))\<rparr>) linux []
       (echo one_second capture_policy_default) = Some (Err e, h) \<and> error_evidence e = Some ev \<and>
     cleanup ev = CleanupIncomplete i \<and> leader_unsettled i \<and> elapsed ev = Some d \<and> d < cleanup_budget_limit"
proof -
  let ?run = "execute ((machine 0 0 [] False)\<lparr>on_wait := \<lambda>_ _. Err (OsError (Errno 10))\<rparr>) linux []
       (echo one_second capture_policy_default)"
  have both: "outcome_is is_early_incomplete ?run \<and> outcome_has failed_wait ?run"
    by code_simp
  then obtain r h x where run: "?run = Some (r, h)" "is_early_incomplete r" "x \<in> set h" "failed_wait x"
    using outcome_is_Some [of is_early_incomplete ?run] outcome_has_Some [of failed_wait ?run] by auto
  obtain pid e before after where h: "h = before @ EvWait pid (Err e) # after"
    using run(3,4) by (cases x rule: failed_wait.cases) (auto dest: split_list)
  obtain e' ev d where r: "r = Err e'" "error_evidence e' = Some ev" "elapsed ev = Some d" "d < from_millis 100"
    using run(2) by (cases r rule: is_early_incomplete.cases) (auto split: option.splits)
  have "from_millis 100 < cleanup_budget_limit"
    by (simp add: cleanup_budget_limit_def from_secs_def from_millis_def nanos_per_sec_def)
  with failed_reap_ends_cleanup [OF run(1) [unfolded h]] run(1) r h show ?thesis by auto
qed

section \<open>Captured text\<close>

text \<open>
  C18. Captured text is never corrupted, on either stream: when the bytes read from a child are
  the beginning of UTF-8 text -- all of it, or cut anywhere, also inside a character, by a
  deadline or a limit -- what is held of them reads as a prefix of that text: all of it as text,
  or, where it ends inside a character, an error that says how many bytes are text and that only
  the end is missing.
\<close>

theorem captured_text:
  assumes "execute E t parent c = Some (r, h)" and "run_evidence r = Some ev"
    and "list_all is_scalar s" and "prefix (bytes_read (stream_pipe stream) h) (encode_utf8 s)"
  shows "\<exists>u. prefix u s \<and> reads_as u (captured (stream_report stream ev))"
proof (rule prefix_of_text [OF assms(3)])
  show "prefix (cs_bytes (captured (stream_report stream ev))) (encode_utf8 s)"
    using execute_stream [OF assms(1,2), of stream] assms(4)
    by (auto simp: report_truthful_def intro: prefix_order.trans)
qed

text \<open>
  A child that writes the first two bytes of the euro sign and then exits, as part of a longer
  text, with a limit of one byte.
\<close>

fun reads_euro :: "epi_error + run_output \<Rightarrow> history \<Rightarrow> bool" where
  "reads_euro (Err (CaptureLimitExceeded _ _ _ ev)) h \<longleftrightarrow>
     bytes_read ChildStdout h = [0xE2, 0x82] \<and> cs_bytes (captured (le_stdout ev)) = [0xE2]"
| "reads_euro _ _ \<longleftrightarrow> False"

theorem captured_text_witness:
  "\<exists>r h ev. execute (machine 15 0 [0xE2, 0x82] False) linux [] (echo one_second (bounded 1)) = Some (r, h) \<and>
     run_evidence r = Some ev \<and>
     captured_as_str (captured (le_stdout ev)) = Err \<lparr>valid_up_to = 0, error_len = None\<rparr> \<and>
     (\<exists>u. prefix u [0x20AC, 0x35] \<and> reads_as u (captured (le_stdout ev)))"
proof -
  let ?run = "execute (machine 15 0 [0xE2, 0x82] False) linux [] (echo one_second (bounded 1))"
  have "case ?run of Some (r, h) \<Rightarrow> reads_euro r h | None \<Rightarrow> False"
    by code_simp
  then obtain r h where run: "?run = Some (r, h)" "reads_euro r h"
    by (auto split: option.splits)
  then obtain program stream limit ev where r: "r = Err (CaptureLimitExceeded program stream limit ev)"
    "bytes_read ChildStdout h = [0xE2, 0x82]" "cs_bytes (captured (le_stdout ev)) = [0xE2]"
    by (cases "(r, h)" rule: reads_euro.cases) auto
  have "captured_as_str (captured (le_stdout ev)) = Err \<lparr>valid_up_to = 0, error_len = None\<rparr>"
    unfolding captured_as_str_def r(3) by code_simp
  moreover have "list_all is_scalar [0x20AC, 0x35]"
    by code_simp
  moreover have "prefix (bytes_read (stream_pipe Stdout) h) (encode_utf8 [0x20AC, 0x35])"
    unfolding stream_pipe.simps r(2) by code_simp
  moreover have "run_evidence r = Some ev" by (simp add: r(1))
  ultimately show ?thesis
    using captured_text [OF run(1), of ev "[0x20AC, 0x35]" Stdout] run(1) by auto
qed

section \<open>Platforms\<close>

text \<open>
  On a platform without the owned-group backend both entry points refuse with the missing
  capability, before any call is made, whatever the command is.
\<close>

theorem unsupported_platform:
  assumes "\<not> backend_supported t"
  shows "execute E t parent c = Some (Err (UnsupportedCapability OwnedProcessGroup), []) \<and>
    spawn_managed E t parent sc = (Err (UnsupportedCapability OwnedProcessGroup), Some (None, []))"
  using assms by (simp add: execute_def spawn_managed_def prepare_def validate_backend_def)

theorem unsupported_platform_witness:
  "execute (machine 0 0 [] False) (linux\<lparr>target_os := ''redox''\<rparr>) [] (echo one_second capture_policy_default)
     = Some (Err (UnsupportedCapability OwnedProcessGroup), [])"
  using unsupported_platform [of "linux\<lparr>target_os := ''redox''\<rparr>"]
  by (simp add: backend_supported_def linux_def)

end
